theory Spec2Isabelle
  imports Complex_Main "HOL-Library.Word"
begin

section \<open>Python and NumPy as the generators use them\<close>

text \<open>
  The five generators of \<open>create_samples.py\<close> are embedded as functions from a size and
  the state of NumPy's global random generator to either the exception raised or the
  returned image and the generator's new state.

  Conventions of the embedding:
  \<^item> Python's \<open>int\<close> is \<open>int\<close>; \<open>//\<close> is \<open>div\<close> (both round towards minus infinity).
  \<^item> Python's \<open>float\<close> and NumPy's \<open>float64\<close> are idealised as \<open>real\<close>: \<open>np.sin\<close>,
    \<open>np.cos\<close>, \<open>np.pi\<close> are \<open>sin\<close>, \<open>cos\<close>, \<open>pi\<close>.  No statement below depends on
    a rounding; they use only bounds that hold for the rounded values as well.
  \<^item> \<open>np.uint8\<close> is \<open>8 word\<close>.  NumPy's \<open>int64\<close> arithmetic is done in \<open>int\<close>: all
    intermediate values of the generators are below \<open>2^63\<close> for every size whose
    squared extents are.
  \<^item> An exception is a value \<open>Inl e\<close>; \<open>ValueError\<close> carries which check raised it.
\<close>

datatype value_error =
    negative_dimensions      \<comment> \<open>negative dimensions are not allowed\<close>
  | could_not_broadcast      \<comment> \<open>could not broadcast input array from shape .. into shape ..\<close>
  | low_ge_high              \<comment> \<open>\<open>randint\<close>: low >= high\<close>
  | range_step_zero          \<comment> \<open>range() arg 3 must not be zero\<close>
  | not_1_dimensional        \<comment> \<open>\<open>choice\<close>: a must be 1-dimensional\<close>
  | empty_choice             \<comment> \<open>\<open>choice\<close>: a cannot be empty\<close>

datatype error = ValueError value_error | IndexError | ZeroDivisionError

definition ebind :: "error + 'a \<Rightarrow> ('a \<Rightarrow> error + 'b) \<Rightarrow> error + 'b" where
  "ebind m f = (case m of Inl e \<Rightarrow> Inl e | Inr v \<Rightarrow> f v)"

text \<open>A \<open>for\<close> loop over a list of indices: the body updates the loop's state, and an
  exception raised by the body leaves the loop.\<close>

primrec for_loop :: "'a list \<Rightarrow> ('a \<Rightarrow> 's \<Rightarrow> error + 's) \<Rightarrow> 's \<Rightarrow> error + 's" where
  "for_loop [] body s = Inr s"
| "for_loop (x # xs) body s = (case body x s of Inl e \<Rightarrow> Inl e | Inr s' \<Rightarrow> for_loop xs body s')"

text \<open>\<open>range(start, stop)\<close> and \<open>range(start, stop, step)\<close>.\<close>

definition py_range :: "int \<Rightarrow> int \<Rightarrow> int list" where
  "py_range start stop = [start..stop - 1]"

definition py_range_step :: "int \<Rightarrow> int \<Rightarrow> int \<Rightarrow> error + int list" where
  "py_range_step start stop step =
     (if step = 0 then Inl (ValueError range_step_zero)
      else if 0 < step then
        Inr (map (\<lambda>i. start + int i * step) [0..<nat ((stop - start + step - 1) div step)])
      else
        Inr (map (\<lambda>i. start + int i * step) [0..<nat ((start - stop - step - 1) div (- step))]))"

text \<open>\<open>a / b\<close> on Python numbers, and \<open>int(r)\<close> (also \<open>astype(np.int32)\<close>), which
  truncates towards zero.\<close>

definition py_truediv :: "real \<Rightarrow> real \<Rightarrow> error + real" where
  "py_truediv a b = (if b = 0 then Inl ZeroDivisionError else Inr (a / b))"

definition py_int :: "real \<Rightarrow> int" where
  "py_int r = (if 0 \<le> r then \<lfloor>r\<rfloor> else \<lceil>r\<rceil>)"

definition np_clip :: "int \<Rightarrow> int \<Rightarrow> int \<Rightarrow> int" where
  "np_clip a lo hi = min (max a lo) hi"

subsection \<open>Python values passed to \<open>np.random.choice\<close>\<close>

datatype pyval = PInt int | PStr string | PList "pyval list"

text \<open>The number of dimensions of \<open>np.array(a)\<close> for a regularly nested list.\<close>

fun ndim :: "pyval \<Rightarrow> nat" where
  "ndim (PInt n) = 0"
| "ndim (PStr s) = 0"
| "ndim (PList []) = 1"
| "ndim (PList (v # vs)) = Suc (ndim v)"

fun ints_of :: "pyval \<Rightarrow> int list" where
  "ints_of (PList vs) = map (\<lambda>v. case v of PInt n \<Rightarrow> n | _ \<Rightarrow> 0) vs"
| "ints_of v = []"

subsection \<open>The global random generator\<close>

text \<open>
  The state of \<open>np.random\<close> is the stream of raw numbers it will still produce.  A draw
  consumes the head of the stream; an array draw consumes one raw number per element,
  in row-major order.  \<open>randint(low, high)\<close> draws from the half-open range
  \<open>low \<le> n < high\<close>.
\<close>

type_synonym rng = "nat \<Rightarrow> nat"

definition rng_drop :: "nat \<Rightarrow> rng \<Rightarrow> rng" where
  "rng_drop n g = (\<lambda>i. g (i + n))"

definition draw :: "int \<Rightarrow> int \<Rightarrow> nat \<Rightarrow> int" where
  "draw low high raw = low + int raw mod (high - low)"

definition randint :: "int \<Rightarrow> int \<Rightarrow> rng \<Rightarrow> error + (int \<times> rng)" where
  "randint low high g =
     (if high \<le> low then Inl (ValueError low_ge_high)
      else Inr (draw low high (g 0), rng_drop 1 g))"

definition randint_1d :: "int \<Rightarrow> int \<Rightarrow> int \<Rightarrow> rng \<Rightarrow> error + (int list \<times> rng)" where
  "randint_1d low high n g =
     (if high \<le> low then Inl (ValueError low_ge_high)
      else if n < 0 then Inl (ValueError negative_dimensions)
      else Inr (map (\<lambda>i. draw low high (g i)) [0..<nat n], rng_drop (nat n) g))"

definition randint_3d ::
  "int \<Rightarrow> int \<Rightarrow> int \<times> int \<times> int \<Rightarrow> rng \<Rightarrow> error + ((nat \<Rightarrow> nat \<Rightarrow> nat \<Rightarrow> int) \<times> rng)" where
  "randint_3d low high shp g =
     (case shp of (h, w, c) \<Rightarrow>
        if high \<le> low then Inl (ValueError low_ge_high)
        else if h < 0 \<or> w < 0 \<or> c < 0 then Inl (ValueError negative_dimensions)
        else Inr (\<lambda>y x k. draw low high (g ((y * nat w + x) * nat c + k)),
                  rng_drop (nat h * nat w * nat c) g))"

text \<open>\<open>np.random.random()\<close>: a multiple of \<open>2^-53\<close> in \<open>[0, 1)\<close>.\<close>

definition random_sample :: "rng \<Rightarrow> real \<times> rng" where
  "random_sample g = (real (g 0 mod 2 ^ 53) / 2 ^ 53, rng_drop 1 g)"

text \<open>\<open>np.random.choice(a)\<close>: \<open>a\<close> is converted to an array, which must have one
  dimension (an integer \<open>a\<close> stands for \<open>arange(a)\<close>) and at least one element.\<close>

definition random_choice :: "pyval \<Rightarrow> rng \<Rightarrow> error + (pyval \<times> rng)" where
  "random_choice a g =
     (case a of
        PInt n \<Rightarrow>
          if n \<le> 0 then Inl (ValueError empty_choice)
          else Inr (PInt (int (g 0) mod n), rng_drop 1 g)
      | PStr s \<Rightarrow> Inl (ValueError not_1_dimensional)
      | PList vs \<Rightarrow>
          if ndim a \<noteq> 1 then Inl (ValueError not_1_dimensional)
          else if vs = [] then Inl (ValueError empty_choice)
          else Inr (vs ! (g 0 mod length vs), rng_drop 1 g))"

subsection \<open>Images\<close>

text \<open>
  An image is an array of shape \<open>(rows, cols, chans)\<close> and dtype \<open>uint8\<close>.  Storing an
  integer in it narrows the integer modulo 256.  The field \<open>wrapped\<close> is not part of the
  array: it records that some value outside \<open>[0, 255]\<close> has been handed to such a store,
  so that "no store ever narrowed an out-of-range value" can be stated of a run.
\<close>

record canvas =
  rows :: nat
  cols :: nat
  chans :: nat
  pix :: "nat \<Rightarrow> nat \<Rightarrow> nat \<Rightarrow> 8 word"
  wrapped :: bool

definition to_uint8 :: "int \<Rightarrow> 8 word" where
  "to_uint8 v = word_of_int v"

definition fits_uint8 :: "int \<Rightarrow> bool" where
  "fits_uint8 v = (0 \<le> v \<and> v \<le> 255)"

text \<open>\<open>np.zeros((height, width, 3), dtype=np.uint8)\<close> is \<open>np_full height width 0\<close>.\<close>

definition np_full :: "int \<Rightarrow> int \<Rightarrow> int \<Rightarrow> error + canvas" where
  "np_full height width v =
     (if height < 0 \<or> width < 0 then Inl (ValueError negative_dimensions)
      else Inr \<lparr>rows = nat height, cols = nat width, chans = 3,
                pix = (\<lambda>y x k. to_uint8 v), wrapped = (\<not> fits_uint8 v)\<rparr>)"

text \<open>\<open>np.random.randint(low, high, (height, width, 3), dtype=np.uint8)\<close>.\<close>

definition randint_canvas :: "int \<Rightarrow> int \<Rightarrow> int \<Rightarrow> int \<Rightarrow> rng \<Rightarrow> error + (canvas \<times> rng)" where
  "randint_canvas low high height width g =
     ebind (randint_3d low high (height, width, 3) g) (\<lambda>(vals, g').
       Inr (\<lparr>rows = nat height, cols = nat width, chans = 3,
              pix = (\<lambda>y x k. to_uint8 (vals y x k)),
              wrapped = (\<exists>y<nat height. \<exists>x<nat width. \<exists>k<3. \<not> fits_uint8 (vals y x k))\<rparr>, g'))"

text \<open>An integer index into an axis of length \<open>n\<close>: negative indices count from the end.\<close>

definition py_index :: "nat \<Rightarrow> int \<Rightarrow> error + nat" where
  "py_index n i =
     (if 0 \<le> i \<and> i < int n then Inr (nat i)
      else if - int n \<le> i \<and> i < 0 then Inr (nat (i + int n))
      else Inl IndexError)"

text \<open>A slice \<open>a:b\<close> of an axis of length \<open>n\<close>; \<open>None\<close> is an omitted bound.  Bounds are
  clipped to the axis, negative ones after counting from the end.\<close>

type_synonym slice = "int option \<times> int option"

definition slice_bound :: "nat \<Rightarrow> int \<Rightarrow> nat" where
  "slice_bound n i = (if i < 0 then nat (max 0 (i + int n)) else min (nat i) n)"

definition slice_start :: "nat \<Rightarrow> slice \<Rightarrow> nat" where
  "slice_start n s = (case fst s of None \<Rightarrow> 0 | Some a \<Rightarrow> slice_bound n a)"

definition slice_stop :: "nat \<Rightarrow> slice \<Rightarrow> nat" where
  "slice_stop n s = (case snd s of None \<Rightarrow> n | Some b \<Rightarrow> slice_bound n b)"

definition in_slice :: "nat \<Rightarrow> slice \<Rightarrow> nat \<Rightarrow> bool" where
  "in_slice n s k = (slice_start n s \<le> k \<and> k < slice_stop n s)"

text \<open>The right-hand side of an assignment: a list of numbers (one dimension) or a list
  of equally long rows (two dimensions).\<close>

datatype ndarray = Arr1 "int list" | Arr2 "int list list"

definition inner_len :: "int list list \<Rightarrow> nat" where
  "inner_len xss = (case xss of [] \<Rightarrow> 0 | r # _ \<Rightarrow> length r)"

text \<open>Broadcasting a colour to the channel axis, and an array to a row of shape
  \<open>(w, c)\<close>: each axis of the source, aligned from the right, has the target's length
  or length 1.\<close>

definition broadcast_color :: "nat \<Rightarrow> int list \<Rightarrow> error + (nat \<Rightarrow> int)" where
  "broadcast_color c xs =
     (if length xs = c then Inr (\<lambda>k. xs ! k)
      else if length xs = 1 then Inr (\<lambda>k. xs ! 0)
      else Inl (ValueError could_not_broadcast))"

definition broadcast_row :: "nat \<Rightarrow> nat \<Rightarrow> ndarray \<Rightarrow> error + (nat \<Rightarrow> nat \<Rightarrow> int)" where
  "broadcast_row w c src =
     (case src of
        Arr1 xs \<Rightarrow> ebind (broadcast_color c xs) (\<lambda>v. Inr (\<lambda>x k. v k))
      | Arr2 xss \<Rightarrow>
          (let a = length xss; b = inner_len xss in
           if (b = c \<or> b = 1) \<and> (a = w \<or> a = 1)
           then Inr (\<lambda>x k. xss ! (if a = 1 then 0 else x) ! (if b = 1 then 0 else k))
           else Inl (ValueError could_not_broadcast)))"

text \<open>\<open>image[y, :] = src\<close>\<close>

definition setitem_row :: "canvas \<Rightarrow> int \<Rightarrow> ndarray \<Rightarrow> error + canvas" where
  "setitem_row img y src =
     ebind (py_index (rows img) y) (\<lambda>r.
     ebind (broadcast_row (cols img) (chans img) src) (\<lambda>v.
       Inr (img\<lparr>
         pix := (\<lambda>i x k. if i = r \<and> x < cols img \<and> k < chans img
                          then to_uint8 (v x k) else pix img i x k),
         wrapped := (wrapped img \<or>
                     (\<exists>x<cols img. \<exists>k<chans img. \<not> fits_uint8 (v x k)))\<rparr>)))"

text \<open>\<open>image[y, x] = color\<close>\<close>

definition setitem_pixel :: "canvas \<Rightarrow> int \<Rightarrow> int \<Rightarrow> int list \<Rightarrow> error + canvas" where
  "setitem_pixel img y x color =
     ebind (py_index (rows img) y) (\<lambda>r.
     ebind (py_index (cols img) x) (\<lambda>q.
     ebind (broadcast_color (chans img) color) (\<lambda>v.
       Inr (img\<lparr>
         pix := (\<lambda>i j k. if i = r \<and> j = q \<and> k < chans img
                          then to_uint8 (v k) else pix img i j k),
         wrapped := (wrapped img \<or> (\<exists>k<chans img. \<not> fits_uint8 (v k)))\<rparr>))))"

text \<open>\<open>image[ys, xs] = color\<close> for two slices.\<close>

definition setitem_region :: "canvas \<Rightarrow> slice \<Rightarrow> slice \<Rightarrow> int list \<Rightarrow> error + canvas" where
  "setitem_region img ys xs color =
     ebind (broadcast_color (chans img) color) (\<lambda>v.
       Inr (img\<lparr>
         pix := (\<lambda>i j k. if in_slice (rows img) ys i \<and> in_slice (cols img) xs j
                              \<and> k < chans img
                          then to_uint8 (v k) else pix img i j k),
         wrapped := (wrapped img \<or> (\<exists>k<chans img. \<not> fits_uint8 (v k)))\<rparr>))"

text \<open>A boolean mask of shape \<open>(mask_rows, mask_cols)\<close>, and \<open>image[mask] = color\<close>: the
  mask must have the shape of the image's first two axes.\<close>

record mask =
  mask_rows :: nat
  mask_cols :: nat
  covers :: "nat \<Rightarrow> nat \<Rightarrow> bool"

definition setitem_mask :: "canvas \<Rightarrow> mask \<Rightarrow> int list \<Rightarrow> error + canvas" where
  "setitem_mask img m color =
     (if mask_rows m \<noteq> rows img \<or> mask_cols m \<noteq> cols img then Inl IndexError
      else
        ebind (broadcast_color (chans img) color) (\<lambda>v.
          Inr (img\<lparr>
            pix := (\<lambda>i j k. if i < rows img \<and> j < cols img \<and> covers m i j
                                 \<and> k < chans img
                             then to_uint8 (v k) else pix img i j k),
            wrapped := (wrapped img \<or> (\<exists>k<chans img. \<not> fits_uint8 (v k)))\<rparr>)))"

text \<open>\<open>image[:, :, c] = vals\<close> for an array \<open>vals\<close> of the image's height and width.\<close>

definition setitem_channel :: "canvas \<Rightarrow> int \<Rightarrow> (nat \<Rightarrow> nat \<Rightarrow> int) \<Rightarrow> error + canvas" where
  "setitem_channel img c vals =
     ebind (py_index (chans img) c) (\<lambda>q.
       Inr (img\<lparr>
         pix := (\<lambda>i j k. if i < rows img \<and> j < cols img \<and> k = q
                          then to_uint8 (vals i j) else pix img i j k),
         wrapped := (wrapped img \<or>
                     (\<exists>i<rows img. \<exists>j<cols img. \<not> fits_uint8 (vals i j)))\<rparr>))"

text \<open>\<open>image.astype(np.int16)\<close> of one element: exact, as every \<open>uint8\<close> fits.\<close>

definition astype_int16 :: "8 word \<Rightarrow> int" where
  "astype_int16 p = sint (ucast p :: 16 word)"

text \<open>The mask of a disc, from \<open>np.ogrid[:height, :width]\<close>:
  \<open>(x_coords - cx) ** 2 + (y_coords - cy) ** 2 <= r ** 2\<close>.\<close>

definition circle_mask :: "int \<Rightarrow> int \<Rightarrow> int \<Rightarrow> int \<Rightarrow> int \<Rightarrow> mask" where
  "circle_mask height width cx cy r =
     \<lparr>mask_rows = nat height, mask_cols = nat width,
      covers = (\<lambda>y x. (int x - cx)\<^sup>2 + (int y - cy)\<^sup>2 \<le> r\<^sup>2)\<rparr>"

text \<open>The texture pass that ends three of the generators:
  \<^verbatim>\<open>noise = np.random.randint(low, high, (height, width, 3))\<close>
  \<^verbatim>\<open>image = np.clip(image.astype(np.int16) + noise, 0, 255).astype(np.uint8)\<close>\<close>

definition clip_sum :: "canvas \<Rightarrow> (nat \<Rightarrow> nat \<Rightarrow> nat \<Rightarrow> int) \<Rightarrow> canvas" where
  "clip_sum img noise =
     img\<lparr>
       pix := (\<lambda>y x k. to_uint8 (np_clip (astype_int16 (pix img y x k) + noise y x k) 0 255)),
       wrapped := (wrapped img \<or>
                   (\<exists>y<rows img. \<exists>x<cols img. \<exists>k<chans img.
                      \<not> fits_uint8 (np_clip (astype_int16 (pix img y x k) + noise y x k) 0 255)))\<rparr>"

definition add_noise :: "int \<Rightarrow> int \<Rightarrow> int \<Rightarrow> int \<Rightarrow> canvas \<Rightarrow> rng \<Rightarrow> error + (canvas \<times> rng)" where
  "add_noise low high height width img g =
     ebind (randint_3d low high (height, width, 3) g) (\<lambda>(noise, g').
       Inr (clip_sum img noise, g'))"

section \<open>The generators\<close>

subsection \<open>\<open>create_landscape_image\<close>\<close>

text \<open>The rows of the three bands.\<close>

definition sky_rows :: "int \<Rightarrow> int list" where
  "sky_rows height = (let sky_height = height div 3 in py_range 0 sky_height)"

definition mountain_rows :: "int \<Rightarrow> int list" where
  "mountain_rows height =
     (let sky_height = height div 3; mountain_start = sky_height; mountain_height = height div 4
      in py_range mountain_start (mountain_start + mountain_height))"

definition ground_rows :: "int \<Rightarrow> int list" where
  "ground_rows height =
     (let sky_height = height div 3; mountain_start = sky_height; mountain_height = height div 4;
          ground_start = mountain_start + mountain_height
      in py_range ground_start height)"

text \<open>The bodies of the three loops.  The sky assigns a list of three numbers to the row;
  the mountains and the ground assign a list of three arrays of length \<open>width\<close>, an array
  of shape \<open>(3, width)\<close>, to a row of shape \<open>(width, 3)\<close>.\<close>

definition sky_row :: "int \<Rightarrow> int \<Rightarrow> canvas \<Rightarrow> error + canvas" where
  "sky_row sky_height y img =
     ebind (py_truediv (of_int y) (of_int sky_height)) (\<lambda>q.
       let intensity = py_int (120 + (180 - 120) * (1 - q)) in
       setitem_row img y (Arr1 [intensity, intensity - 30, intensity - 60]))"

definition mountain_row :: "int \<Rightarrow> int \<Rightarrow> canvas \<times> rng \<Rightarrow> error + (canvas \<times> rng)" where
  "mountain_row width y s =
     (case s of (img, g) \<Rightarrow>
        ebind (randint_1d (- 20) 20 width g) (\<lambda>(noise, g').
          let base_color = map (\<lambda>n. 80 + n) noise in
          ebind (setitem_row img y
                   (Arr2 [base_color, map (\<lambda>b. b - 10) base_color, map (\<lambda>b. b - 20) base_color]))
            (\<lambda>img'. Inr (img', g'))))"

definition ground_row :: "int \<Rightarrow> int \<Rightarrow> canvas \<times> rng \<Rightarrow> error + (canvas \<times> rng)" where
  "ground_row width y s =
     (case s of (img, g) \<Rightarrow>
        ebind (randint_1d (- 15) 15 width g) (\<lambda>(noise, g').
          let green_intensity = map (\<lambda>n. 100 + n) noise in
          ebind (setitem_row img y
                   (Arr2 [map (\<lambda>b. b - 40) green_intensity, green_intensity,
                          map (\<lambda>b. b - 60) green_intensity]))
            (\<lambda>img'. Inr (img', g'))))"

definition landscape_sky :: "int \<Rightarrow> canvas \<Rightarrow> error + canvas" where
  "landscape_sky height img = for_loop (sky_rows height) (sky_row (height div 3)) img"

definition landscape_mountains :: "int \<Rightarrow> int \<Rightarrow> canvas \<times> rng \<Rightarrow> error + (canvas \<times> rng)" where
  "landscape_mountains height width s = for_loop (mountain_rows height) (mountain_row width) s"

definition landscape_ground :: "int \<Rightarrow> int \<Rightarrow> canvas \<times> rng \<Rightarrow> error + (canvas \<times> rng)" where
  "landscape_ground height width s = for_loop (ground_rows height) (ground_row width) s"

definition create_landscape_image :: "int \<times> int \<Rightarrow> rng \<Rightarrow> error + (canvas \<times> rng)" where
  "create_landscape_image sz g =
     (case sz of (height, width) \<Rightarrow>
        ebind (np_full height width 0) (\<lambda>img0.
        ebind (landscape_sky height img0) (\<lambda>img1.
        ebind (landscape_mountains height width (img1, g)) (\<lambda>s2.
        ebind (landscape_ground height width s2) (\<lambda>(img3, g3).
        add_noise (- 10) 10 height width img3 g3)))))"

subsection \<open>\<open>create_portrait_image\<close>\<close>

definition background_pixel :: "int \<Rightarrow> int \<Rightarrow> int \<Rightarrow> int \<Rightarrow> canvas \<Rightarrow> error + canvas" where
  "background_pixel height width y x img =
     ebind (py_truediv (of_int x) (of_int width)) (\<lambda>qx.
     ebind (py_truediv (of_int y) (of_int height)) (\<lambda>qy.
       let intensity = py_int (150 + 50 * sin (qx * pi) * cos (qy * pi)) in
       setitem_pixel img y x [intensity, intensity - 20, intensity - 40]))"

definition portrait_background :: "int \<Rightarrow> int \<Rightarrow> canvas \<Rightarrow> error + canvas" where
  "portrait_background height width img =
     for_loop (py_range 0 height)
       (\<lambda>y. for_loop (py_range 0 width) (background_pixel height width y)) img"

text \<open>The face: the disc around the centre is overwritten with a colour of three draws.
  The result keeps the colour beside the image, as the source's variable \<open>face_color\<close>
  does.\<close>

definition face_mask :: "int \<Rightarrow> int \<Rightarrow> mask" where
  "face_mask height width =
     (let center_x = width div 2; center_y = height div 2; radius = min width height div 4
      in circle_mask height width center_x center_y radius)"

definition portrait_face ::
  "int \<Rightarrow> int \<Rightarrow> canvas \<Rightarrow> rng \<Rightarrow> error + (canvas \<times> int list \<times> rng)" where
  "portrait_face height width img g =
     ebind (randint_1d 180 220 3 g) (\<lambda>(face_color, g').
     ebind (setitem_mask img (face_mask height width) face_color) (\<lambda>img'.
       Inr (img', face_color, g')))"

text \<open>The generator up to, and without, its last two lines (the noise).\<close>

definition portrait_before_noise ::
  "int \<times> int \<Rightarrow> rng \<Rightarrow> error + (canvas \<times> int list \<times> rng)" where
  "portrait_before_noise sz g =
     (case sz of (height, width) \<Rightarrow>
        ebind (np_full height width 0) (\<lambda>img0.
        ebind (portrait_background height width img0) (\<lambda>img1.
        portrait_face height width img1 g)))"

definition create_portrait_image :: "int \<times> int \<Rightarrow> rng \<Rightarrow> error + (canvas \<times> rng)" where
  "create_portrait_image sz g =
     (case sz of (height, width) \<Rightarrow>
        ebind (portrait_before_noise (height, width) g) (\<lambda>(img2, face_color, g2).
        add_noise (- 15) 15 height width img2 g2))"

subsection \<open>\<open>create_architecture_image\<close>\<close>

definition stripe :: "int \<Rightarrow> int \<Rightarrow> int \<Rightarrow> canvas \<times> rng \<Rightarrow> error + (canvas \<times> rng)" where
  "stripe width stripe_width i s =
     (case s of (img, g) \<Rightarrow>
        let end_x = min (i + stripe_width) width in
        ebind (randint 80 180 g) (\<lambda>(color_intensity, g').
        ebind (setitem_region img (None, None) (Some i, Some end_x)
                 [color_intensity, color_intensity - 20, color_intensity - 30])
          (\<lambda>img'. Inr (img', g'))))"

definition floor_line :: "int \<Rightarrow> int \<Rightarrow> canvas \<Rightarrow> error + canvas" where
  "floor_line height y img =
     (if y < height then setitem_region img (Some y, Some (y + 3)) (None, None) [60, 60, 60]
      else Inr img)"

text \<open>A window is the rectangle \<open>(window_x, window_y, window_w, window_h)\<close>; it is drawn
  when the test of line 98 holds.\<close>

definition window_rect :: "int \<Rightarrow> int \<Rightarrow> int \<Rightarrow> int \<Rightarrow> int \<times> int \<times> int \<times> int" where
  "window_rect stripe_width floor_spacing building floor_y =
     (let window_x = building + stripe_width div 4;
          window_y = floor_y + floor_spacing div 4;
          window_w = stripe_width div 2;
          window_h = floor_spacing div 2
      in (window_x, window_y, window_w, window_h))"

definition window_drawn :: "int \<Rightarrow> int \<Rightarrow> int \<times> int \<times> int \<times> int \<Rightarrow> bool" where
  "window_drawn height width r =
     (case r of (window_x, window_y, window_w, window_h) \<Rightarrow>
        window_x + window_w < width \<and> window_y + window_h < height)"

definition window ::
  "int \<Rightarrow> int \<Rightarrow> int \<Rightarrow> int \<Rightarrow> int \<Rightarrow> int \<Rightarrow> canvas \<times> rng \<Rightarrow> error + (canvas \<times> rng)" where
  "window height width stripe_width floor_spacing building floor_y s =
     (case s of (img, g) \<Rightarrow>
        (case window_rect stripe_width floor_spacing building floor_y of
           (window_x, window_y, window_w, window_h) \<Rightarrow>
             if window_drawn height width (window_x, window_y, window_w, window_h) then
               (case random_sample g of (r, g') \<Rightarrow>
                  let window_color = (if r > 0.3 then [200, 220, 180] else [40, 50, 60]) in
                  ebind (setitem_region img (Some window_y, Some (window_y + window_h))
                           (Some window_x, Some (window_x + window_w)) window_color)
                    (\<lambda>img'. Inr (img', g')))
             else Inr (img, g)))"

definition building_windows ::
  "int \<Rightarrow> int \<Rightarrow> int \<Rightarrow> int \<Rightarrow> int \<Rightarrow> canvas \<times> rng \<Rightarrow> error + (canvas \<times> rng)" where
  "building_windows height width stripe_width floor_spacing building s =
     ebind (py_range_step floor_spacing (height - floor_spacing) floor_spacing) (\<lambda>floors.
       for_loop floors (window height width stripe_width floor_spacing building) s)"

definition create_architecture_image :: "int \<times> int \<Rightarrow> rng \<Rightarrow> error + (canvas \<times> rng)" where
  "create_architecture_image sz g =
     (case sz of (height, width) \<Rightarrow>
        ebind (np_full height width 120) (\<lambda>img0.
        let stripe_width = width div 8 in
        ebind (py_range_step 0 width (stripe_width * 2)) (\<lambda>stripes.
        ebind (for_loop stripes (stripe width stripe_width) (img0, g)) (\<lambda>(img1, g1).
        let floor_spacing = height div 12 in
        ebind (py_range_step floor_spacing height floor_spacing) (\<lambda>lines.
        ebind (for_loop lines (floor_line height) img1) (\<lambda>img2.
        ebind (py_range_step 0 width (stripe_width * 2)) (\<lambda>buildings.
        ebind (for_loop buildings (building_windows height width stripe_width floor_spacing)
                 (img2, g1)) (\<lambda>(img3, g3).
        add_noise (- 8) 8 height width img3 g3))))))))"

subsection \<open>Drawing a disc and a rectangle\<close>

text \<open>The three statements that draw a disc (lines 154 to 156 and 186 to 188), and the
  three that draw a rectangle (lines 195 to 198).\<close>

definition draw_circle ::
  "int \<Rightarrow> int \<Rightarrow> canvas \<Rightarrow> int \<Rightarrow> int \<Rightarrow> int \<Rightarrow> int list \<Rightarrow> error + canvas" where
  "draw_circle height width img cx cy r color =
     setitem_mask img (circle_mask height width cx cy r) color"

definition draw_rectangle ::
  "int \<Rightarrow> int \<Rightarrow> canvas \<Rightarrow> int \<Rightarrow> int \<Rightarrow> int \<Rightarrow> int \<Rightarrow> int list \<Rightarrow> error + canvas" where
  "draw_rectangle height width img x1 y1 w h color =
     (let x2 = min (x1 + w) width; y2 = min (y1 + h) height
      in setitem_region img (Some y1, Some y2) (Some x1, Some x2) color)"

subsection \<open>\<open>create_nature_image\<close>\<close>

text \<open>\<open>np.linspace(start, stop, num)\<close>, as the function from index to sample.\<close>

definition np_linspace :: "real \<Rightarrow> real \<Rightarrow> int \<Rightarrow> error + (nat \<Rightarrow> real)" where
  "np_linspace start stop num =
     (if num < 0 then Inl (ValueError negative_dimensions)
      else Inr (\<lambda>i. if num \<le> 1 then start
                     else start + real i * ((stop - start) / real_of_int (num - 1))))"

definition combined_pattern :: "real \<Rightarrow> real \<Rightarrow> real" where
  "combined_pattern X Y =
     (let pattern1 = sin X * cos Y;
          pattern2 = sin (2 * X + pi / 4) * cos (2 * Y + pi / 4);
          pattern3 = sin (0.5 * X) * cos (0.5 * Y)
      in pattern1 + 0.5 * pattern2 + 0.3 * pattern3)"

definition nature_background :: "int \<Rightarrow> int \<Rightarrow> canvas \<Rightarrow> error + canvas" where
  "nature_background height width img =
     ebind (np_linspace 0 (4 * pi) width) (\<lambda>x.
     ebind (np_linspace 0 (4 * pi) height) (\<lambda>y.
       let base_green = 120;
           green_channel = (\<lambda>i j. base_green + py_int (combined_pattern (x j) (y i) * 50));
           red_channel = (\<lambda>i j. (base_green - 40) + py_int (combined_pattern (x j) (y i) * 30));
           blue_channel = (\<lambda>i j. (base_green - 60) + py_int (combined_pattern (x j) (y i) * 20))
       in
       ebind (setitem_channel img 0 (\<lambda>i j. np_clip (blue_channel i j) 0 255)) (\<lambda>img1.
       ebind (setitem_channel img1 1 (\<lambda>i j. np_clip (green_channel i j) 0 255)) (\<lambda>img2.
       setitem_channel img2 2 (\<lambda>i j. np_clip (red_channel i j) 0 255)))))"

definition spot_colors :: pyval where
  "spot_colors =
     PList [PList [PInt 80, PInt 140, PInt 60],
            PList [PInt 100, PInt 80, PInt 70],
            PList [PInt 60, PInt 100, PInt 80]]"

definition nature_spot :: "int \<Rightarrow> int \<Rightarrow> canvas \<times> rng \<Rightarrow> error + (canvas \<times> rng)" where
  "nature_spot height width s =
     (case s of (img, g) \<Rightarrow>
        ebind (randint 0 (width - 20) g) (\<lambda>(spot_x, g1).
        ebind (randint 0 (height - 20) g1) (\<lambda>(spot_y, g2).
        ebind (randint 5 25 g2) (\<lambda>(spot_size, g3).
        ebind (random_choice spot_colors g3) (\<lambda>(spot_color, g4).
        ebind (draw_circle height width img spot_x spot_y spot_size (ints_of spot_color))
          (\<lambda>img'. Inr (img', g4)))))))"

definition create_nature_image :: "int \<times> int \<Rightarrow> rng \<Rightarrow> error + (canvas \<times> rng)" where
  "create_nature_image sz g =
     (case sz of (height, width) \<Rightarrow>
        ebind (np_full height width 0) (\<lambda>img0.
        ebind (nature_background height width img0) (\<lambda>img1.
        let num_spots = 50 in
        for_loop (py_range 0 num_spots) (\<lambda>_. nature_spot height width) (img1, g))))"

subsection \<open>\<open>create_abstract_image\<close>\<close>

definition shapes :: pyval where
  "shapes = PList [PStr ''circle'', PStr ''rectangle'', PStr ''triangle'']"

definition colors :: pyval where
  "colors =
     PList [PList [PInt 255, PInt 100, PInt 100],
            PList [PInt 100, PInt 255, PInt 100],
            PList [PInt 100, PInt 100, PInt 255],
            PList [PInt 255, PInt 255, PInt 100],
            PList [PInt 255, PInt 100, PInt 255],
            PList [PInt 100, PInt 255, PInt 255]]"

definition abstract_circle ::
  "int \<Rightarrow> int \<Rightarrow> int list \<Rightarrow> canvas \<times> rng \<Rightarrow> error + (canvas \<times> rng)" where
  "abstract_circle height width color s =
     (case s of (img, g) \<Rightarrow>
        ebind (randint 0 width g) (\<lambda>(center_x, g1).
        ebind (randint 0 height g1) (\<lambda>(center_y, g2).
        ebind (randint 20 80 g2) (\<lambda>(radius, g3).
        ebind (draw_circle height width img center_x center_y radius color)
          (\<lambda>img'. Inr (img', g3))))))"

definition abstract_rectangle ::
  "int \<Rightarrow> int \<Rightarrow> int list \<Rightarrow> canvas \<times> rng \<Rightarrow> error + (canvas \<times> rng)" where
  "abstract_rectangle height width color s =
     (case s of (img, g) \<Rightarrow>
        ebind (randint 0 (width - 50) g) (\<lambda>(x1, g1).
        ebind (randint 0 (height - 50) g1) (\<lambda>(y1, g2).
        ebind (randint 30 100 g2) (\<lambda>(w, g3).
        ebind (randint 30 100 g3) (\<lambda>(h, g4).
        ebind (draw_rectangle height width img x1 y1 w h color)
          (\<lambda>img'. Inr (img', g4)))))))"

definition abstract_shape :: "int \<Rightarrow> int \<Rightarrow> canvas \<times> rng \<Rightarrow> error + (canvas \<times> rng)" where
  "abstract_shape height width s =
     (case s of (img, g) \<Rightarrow>
        ebind (random_choice shapes g) (\<lambda>(shape, g1).
        ebind (random_choice colors g1) (\<lambda>(color, g2).
          if shape = PStr ''circle'' then abstract_circle height width (ints_of color) (img, g2)
          else if shape = PStr ''rectangle'' then
            abstract_rectangle height width (ints_of color) (img, g2)
          else Inr (img, g2))))"

text \<open>The overlay assigns a row of floats, of the row's own shape, to the row: each is
  truncated to an integer and stored.\<close>

definition setitem_row_float :: "canvas \<Rightarrow> int \<Rightarrow> (nat \<Rightarrow> nat \<Rightarrow> real) \<Rightarrow> error + canvas" where
  "setitem_row_float img y v =
     ebind (py_index (rows img) y) (\<lambda>r.
       Inr (img\<lparr>
         pix := (\<lambda>i x k. if i = r \<and> x < cols img \<and> k < chans img
                          then to_uint8 (py_int (v x k)) else pix img i x k),
         wrapped := (wrapped img \<or>
                     (\<exists>x<cols img. \<exists>k<chans img. \<not> fits_uint8 (py_int (v x k))))\<rparr>))"

definition overlay_row :: "int \<Rightarrow> int \<Rightarrow> canvas \<Rightarrow> error + canvas" where
  "overlay_row height y img =
     ebind (py_truediv (of_int y) (of_int height)) (\<lambda>q.
     ebind (py_index (rows img) y) (\<lambda>r.
       let alpha = 0.3 * sin (q * pi) in
       setitem_row_float img y
         (\<lambda>x k. real_of_int (uint (pix img r x k)) * (1 - alpha) + 128 * alpha)))"

definition create_abstract_image :: "int \<times> int \<Rightarrow> rng \<Rightarrow> error + (canvas \<times> rng)" where
  "create_abstract_image sz g =
     (case sz of (height, width) \<Rightarrow>
        ebind (randint_canvas 50 200 height width g) (\<lambda>(img0, g0).
        let num_shapes = 15 in
        ebind (for_loop (py_range 0 num_shapes) (\<lambda>_. abstract_shape height width) (img0, g0))
          (\<lambda>(img1, g1).
        ebind (for_loop (py_range 0 height) (overlay_row height) img1) (\<lambda>img2.
          Inr (img2, g1)))))"

section \<open>Predicates of the statements\<close>

text \<open>\<open>post Q P r\<close>: a result \<open>r\<close> that is an exception satisfies \<open>Q\<close>, and one that is a
  value satisfies \<open>P\<close>.  \<open>has_shape\<close>: the image is \<open>height\<close> by \<open>width\<close> with three
  channels.\<close>

definition post :: "(error \<Rightarrow> bool) \<Rightarrow> ('a \<Rightarrow> bool) \<Rightarrow> error + 'a \<Rightarrow> bool" where
  "post Q P r = (case r of Inl e \<Rightarrow> Q e | Inr v \<Rightarrow> P v)"

definition has_shape :: "int \<Rightarrow> int \<Rightarrow> canvas \<Rightarrow> bool" where
  "has_shape height width img = (rows img = nat height \<and> cols img = nat width \<and> chans img = 3)"

definition is_value_error :: "error \<Rightarrow> bool" where
  "is_value_error e = (case e of ValueError v \<Rightarrow> True | _ \<Rightarrow> False)"


text \<open>The Landscape and the Architecture generator up to, and without, their last two
  lines (the noise), as \<open>portrait_before_noise\<close> is for the Portrait generator.\<close>

definition landscape_before_texture :: "int \<times> int \<Rightarrow> rng \<Rightarrow> error + (canvas \<times> rng)" where
  "landscape_before_texture sz g =
     (case sz of (height, width) \<Rightarrow>
        ebind (np_full height width 0) (\<lambda>img0.
        ebind (landscape_sky height img0) (\<lambda>img1.
        ebind (landscape_mountains height width (img1, g)) (\<lambda>s2.
        landscape_ground height width s2))))"

definition architecture_before_noise :: "int \<times> int \<Rightarrow> rng \<Rightarrow> error + (canvas \<times> rng)" where
  "architecture_before_noise sz g =
     (case sz of (height, width) \<Rightarrow>
        ebind (np_full height width 120) (\<lambda>img0.
        let stripe_width = width div 8 in
        ebind (py_range_step 0 width (stripe_width * 2)) (\<lambda>stripes.
        ebind (for_loop stripes (stripe width stripe_width) (img0, g)) (\<lambda>(img1, g1).
        let floor_spacing = height div 12 in
        ebind (py_range_step floor_spacing height floor_spacing) (\<lambda>lines.
        ebind (for_loop lines (floor_line height) img1) (\<lambda>img2.
        ebind (py_range_step 0 width (stripe_width * 2)) (\<lambda>buildings.
        for_loop buildings (building_windows height width stripe_width floor_spacing)
          (img2, g1))))))))"

text \<open>The array that \<open>np.random.randint(low, high, (height, width, 3))\<close> draws when the
  generator is in state \<open>g\<close>: the element of channel \<open>k\<close> of pixel \<open>(y, x)\<close> is drawn from
  the raw number at \<open>noise_position width y x k\<close>.\<close>

definition noise_position :: "int \<Rightarrow> nat \<Rightarrow> nat \<Rightarrow> nat \<Rightarrow> nat" where
  "noise_position width y x k = (y * nat width + x) * 3 + k"

definition texture_of :: "int \<Rightarrow> int \<Rightarrow> int \<Rightarrow> rng \<Rightarrow> nat \<Rightarrow> nat \<Rightarrow> nat \<Rightarrow> int" where
  "texture_of low high width g = (\<lambda>y x k. draw low high (g (noise_position width y x k)))"

text \<open>\<open>noise_pass_run low high height width g img g2 r\<close>: a generator started in state \<open>g\<close>
  holds the image \<open>img\<close> and is in state \<open>g2\<close> before its noise pass, and \<open>r\<close> is its
  result.  Then \<open>g2\<close> is what is left of \<open>g\<close>; the result is \<open>img\<close> with the noise array
  drawn in state \<open>g2\<close> added and the sums clipped; and every element of that array lies in
  \<open>low \<le> n \<le> high - 1\<close>.\<close>

definition noise_pass_run ::
  "int \<Rightarrow> int \<Rightarrow> int \<Rightarrow> int \<Rightarrow> rng \<Rightarrow> canvas \<Rightarrow> rng \<Rightarrow> error + (canvas \<times> rng) \<Rightarrow> bool" where
  "noise_pass_run low high height width g img g2 r =
     ((\<exists>n. g2 = rng_drop n g)
      \<and> r = Inr (clip_sum img (texture_of low high width g2),
                 rng_drop (nat height * nat width * 3) g2)
      \<and> (\<forall>y x k. low \<le> texture_of low high width g2 y x k
                 \<and> texture_of low high width g2 y x k \<le> high - 1)
      \<and> (\<forall>y x k. uint (pix (clip_sum img (texture_of low high width g2)) y x k)
                 = np_clip (uint (pix img y x k) + texture_of low high width g2 y x k) 0 255))"

text \<open>\<open>in_drawn_window height width buildings floors i j k\<close>: channel \<open>k\<close> of pixel \<open>(i, j)\<close>
  lies in the rectangle of a window of the given buildings and floors whose origin is
  not negative and for which \<open>window_x + window_w < width\<close> and
  \<open>window_y + window_h < height\<close>.\<close>

definition in_drawn_window ::
  "int \<Rightarrow> int \<Rightarrow> int list \<Rightarrow> int list \<Rightarrow> nat \<Rightarrow> nat \<Rightarrow> nat \<Rightarrow> bool" where
  "in_drawn_window height width buildings floors i j k =
     (\<exists>building \<in> set buildings. \<exists>floor_y \<in> set floors.
        case window_rect (width div 8) (height div 12) building floor_y of
          (wx, wy, ww, wh) \<Rightarrow>
            0 \<le> wx \<and> 0 \<le> wy \<and> wx + ww < width \<and> wy + wh < height
            \<and> wy \<le> int i \<and> int i < wy + wh \<and> wx \<le> int j \<and> int j < wx + ww \<and> k < 3)"
section \<open>Basic facts\<close>

lemma ebind_Inl [simp]: "ebind (Inl e) f = Inl e" by (simp add: ebind_def)
lemma ebind_Inr [simp]: "ebind (Inr v) f = f v" by (simp add: ebind_def)

lemma draw_range: "low < high \<Longrightarrow> low \<le> draw low high r \<and> draw low high r < high"
proof -
  assume a: "low < high"
  have "0 \<le> int r mod (high - low)" "int r mod (high - low) < high - low"
    using a by simp_all
  then show ?thesis by (simp add: draw_def)
qed

lemma draw_attained: "low \<le> v \<Longrightarrow> v < high \<Longrightarrow> draw low high (nat (v - low)) = v"
  by (simp add: draw_def)

lemma post_Inl [simp]: "post Q P (Inl e) = Q e" by (simp add: post_def)
lemma post_Inr [simp]: "post Q P (Inr v) = P v" by (simp add: post_def)

lemma post_ebind:
  "post Q R m \<Longrightarrow> (\<And>v. R v \<Longrightarrow> post Q P (f v)) \<Longrightarrow> post Q P (ebind m f)"
  by (cases m) (simp_all)

lemma post_for_loop:
  "I s \<Longrightarrow> (\<And>x s. x \<in> set xs \<Longrightarrow> I s \<Longrightarrow> post Q I (body x s)) \<Longrightarrow> post Q I (for_loop xs body s)"
proof (induction xs arbitrary: s)
  case Nil then show ?case by simp
next
  case (Cons x xs)
  have "post Q I (body x s)" using Cons.prems by simp
  then show ?case
  proof (cases "body x s")
    case (Inl e) with \<open>post Q I (body x s)\<close> show ?thesis by simp
  next
    case (Inr s')
    with \<open>post Q I (body x s)\<close> have "I s'" by simp
    then have "post Q I (for_loop xs body s')" using Cons.IH Cons.prems(2) by simp
    with Inr show ?thesis by simp
  qed
qed

lemma post_mono: "post Q P r \<Longrightarrow> (\<And>e. Q e \<Longrightarrow> Q' e) \<Longrightarrow> (\<And>v. P v \<Longrightarrow> P' v) \<Longrightarrow> post Q' P' r"
  by (cases r) simp_all

lemma set_py_range: "set (py_range a b) = {a..<b}"
  by (auto simp: py_range_def)

lemma py_range_step_mem:
  assumes "py_range_step start stop step = Inr xs" "x \<in> set xs" "0 \<le> step"
  shows "0 < step \<and> start \<le> x \<and> x < stop"
proof -
  have pos: "0 < step" using assms(1,3) by (cases "step = 0") (simp_all add: py_range_step_def)
  then obtain i where i: "x = start + int i * step" "i < nat ((stop - start + step - 1) div step)"
    using assms(1,2) by (auto simp: py_range_step_def)
  have "int i + 1 \<le> (stop - start + step - 1) div step" using i(2) by linarith
  then have "(int i + 1) * step \<le> (stop - start + step - 1) div step * step"
    using pos by (simp add: mult_right_mono)
  also have "\<dots> \<le> stop - start + step - 1" using pos
    by (metis div_mult_mod_eq Euclidean_Rings.pos_mod_sign add.commute le_add_same_cancel2 mult.commute)
  finally have "int i * step \<le> stop - start - 1" by (simp add: algebra_simps)
  moreover have "0 \<le> int i * step" using pos by simp
  ultimately show ?thesis using pos i(1) by simp
qed

lemma is_value_error_simps [simp]:
  "is_value_error (ValueError v)" "\<not> is_value_error IndexError" "\<not> is_value_error ZeroDivisionError"
  by (simp_all add: is_value_error_def)

lemma nth3: "k < 3 \<Longrightarrow> P a \<Longrightarrow> P b \<Longrightarrow> P c \<Longrightarrow> P ([a, b, c] ! k)"
  by (cases k; simp; rename_tac k1; case_tac k1; simp)

lemma py_index_ok: "0 \<le> i \<Longrightarrow> i < int n \<Longrightarrow> py_index n i = Inr (nat i)"
  by (simp add: py_index_def)

lemma np_full_ok:
  "0 \<le> height \<Longrightarrow> 0 \<le> width \<Longrightarrow> fits_uint8 v \<Longrightarrow>
   \<exists>img. np_full height width v = Inr img \<and> has_shape height width img \<and> \<not> wrapped img"
  by (simp add: np_full_def has_shape_def)

lemma np_full_neg:
  "height < 0 \<or> width < 0 \<Longrightarrow> np_full height width v = Inl (ValueError negative_dimensions)"
  by (auto simp add: np_full_def)

lemma broadcast_color3: "broadcast_color 3 [a, b, c] = Inr (\<lambda>k. [a, b, c] ! k)"
  by (simp add: broadcast_color_def)

lemma setitem_row_Arr1:
  assumes "has_shape height width img" "0 \<le> y" "y < height"
  shows "\<exists>img'. setitem_row img y (Arr1 [a, b, c]) = Inr img' \<and> has_shape height width img'
           \<and> (fits_uint8 a \<and> fits_uint8 b \<and> fits_uint8 c \<longrightarrow> wrapped img' = wrapped img)"
proof -
  have "\<And>x k. k < 3 \<Longrightarrow> fits_uint8 a \<and> fits_uint8 b \<and> fits_uint8 c \<Longrightarrow> fits_uint8 ([a, b, c] ! k)"
    by (rule nth3) simp_all
  then show ?thesis using assms
    by (auto simp: setitem_row_def has_shape_def py_index_ok broadcast_row_def broadcast_color3)
qed

lemma broadcast_row_Arr2:
  assumes "length r0 = n" 
  shows "broadcast_row w 3 (Arr2 [r0, r1, r2]) =
         (if (n = 3 \<or> n = 1) \<and> w = 3
          then Inr (\<lambda>x k. [r0, r1, r2] ! x ! (if n = 1 then 0 else k))
          else Inl (ValueError could_not_broadcast))"
  using assms by (auto simp: broadcast_row_def inner_len_def Let_def)

lemma setitem_region_ok:
  assumes "has_shape height width img"
  shows "\<exists>img'. setitem_region img ys xs [a, b, c] = Inr img' \<and> has_shape height width img'
           \<and> (fits_uint8 a \<and> fits_uint8 b \<and> fits_uint8 c \<longrightarrow> wrapped img' = wrapped img)"
proof -
  have "\<And>k. k < 3 \<Longrightarrow> fits_uint8 a \<and> fits_uint8 b \<and> fits_uint8 c \<Longrightarrow> fits_uint8 ([a, b, c] ! k)"
    by (rule nth3) simp_all
  then show ?thesis using assms
    by (auto simp: setitem_region_def has_shape_def broadcast_color3)
qed

lemma setitem_pixel_ok:
  assumes "has_shape height width img" "0 \<le> y" "y < height" "0 \<le> x" "x < width"
  shows "\<exists>img'. setitem_pixel img y x [a, b, c] = Inr img' \<and> has_shape height width img'
           \<and> (fits_uint8 a \<and> fits_uint8 b \<and> fits_uint8 c \<longrightarrow> wrapped img' = wrapped img)"
proof -
  have "\<And>k. k < 3 \<Longrightarrow> fits_uint8 a \<and> fits_uint8 b \<and> fits_uint8 c \<Longrightarrow> fits_uint8 ([a, b, c] ! k)"
    by (rule nth3) simp_all
  then show ?thesis using assms
    by (auto simp: setitem_pixel_def has_shape_def py_index_ok broadcast_color3)
qed

lemma astype_int16_uint: "astype_int16 p = uint p"
proof -
  have u: "uint (ucast p :: 16 word) = uint p"
    by (rule uint_up_ucast) (simp add: is_up)
  have "- (2 ^ 15) \<le> (0::int)" by simp
  also have "0 \<le> uint p" by simp
  finally have lo: "- (2 ^ 15) \<le> uint p" .
  have "uint p < 2 ^ 8" using uint_lt2p [of p] by simp
  also have "(2::int) ^ 8 < 2 ^ 15" by simp
  finally have "uint p < 2 ^ 15" .
  with lo have "signed_take_bit 15 (uint p) = uint p"
    by (rule signed_take_bit_int_eq_self)
  then show ?thesis by (simp add: astype_int16_def sint_uint u)
qed

lemma np_clip_fits: "fits_uint8 (np_clip a 0 255)"
  by (simp add: np_clip_def fits_uint8_def)

lemma uint_to_uint8: "fits_uint8 v \<Longrightarrow> uint (to_uint8 v) = v"
  by (simp add: to_uint8_def fits_uint8_def uint_word_of_int take_bit_int_eq_self)

lemma add_noise_ok:
  assumes "has_shape height width img" "0 \<le> height" "0 \<le> width" "low < high"
  shows "\<exists>noise g'. add_noise low high height width img g = Inr (clip_sum img noise, g')
           \<and> has_shape height width (clip_sum img noise)
           \<and> wrapped (clip_sum img noise) = wrapped img
           \<and> (\<forall>y x k. low \<le> noise y x k \<and> noise y x k < high)"
  using assms
  by (auto simp: add_noise_def randint_3d_def has_shape_def clip_sum_def np_clip_fits draw_range)

lemma choice_colors: "random_choice colors g = Inl (ValueError not_1_dimensional)"
  by (simp add: random_choice_def colors_def)
lemma choice_spot_colors: "random_choice spot_colors g = Inl (ValueError not_1_dimensional)"
  by (simp add: random_choice_def spot_colors_def)
lemma choice_shapes: "\<exists>v. random_choice shapes g = Inr (v, rng_drop 1 g)"
  by (simp add: random_choice_def shapes_def)

subsection \<open>The Portrait generator\<close>

lemma py_int_bounds: "real_of_int a \<le> r \<Longrightarrow> r \<le> real_of_int b \<Longrightarrow> 0 \<le> a \<Longrightarrow> a \<le> py_int r \<and> py_int r \<le> b"
  by (auto simp: py_int_def le_floor_iff floor_le_iff)

lemma sin_cos_prod_bounds: "- 1 \<le> sin a * cos b \<and> sin a * cos b \<le> (1::real)"
proof -
  have "\<bar>sin a * cos b\<bar> \<le> 1"
    unfolding abs_mult by (intro mult_le_one) simp_all
  then show ?thesis by (simp add: abs_le_iff)
qed

lemma portrait_intensity_bounds:
  "100 \<le> py_int (150 + 50 * sin a * cos b) \<and> py_int (150 + 50 * sin a * cos b) \<le> 200"
proof -
  have "- 1 \<le> sin a * cos b \<and> sin a * cos b \<le> (1::real)" by (rule sin_cos_prod_bounds)
  then have "real_of_int 100 \<le> 150 + 50 * sin a * cos b" "150 + 50 * sin a * cos b \<le> real_of_int 200"
    by (simp_all add: mult.assoc)
  then show ?thesis by (intro py_int_bounds) simp_all
qed

lemma background_pixel_ok:
  assumes "has_shape height width img" "0 \<le> y" "y < height" "0 \<le> x" "x < width"
  shows "\<exists>img'. background_pixel height width y x img = Inr img' \<and> has_shape height width img'
           \<and> wrapped img' = wrapped img"
proof -
  define q where "q = py_int (150 + 50 * sin (real_of_int x / real_of_int width * pi) * cos (real_of_int y / real_of_int height * pi))"
  have b: "100 \<le> q \<and> q \<le> 200" unfolding q_def by (rule portrait_intensity_bounds)
  then have f: "fits_uint8 q \<and> fits_uint8 (q - 20) \<and> fits_uint8 (q - 40)" by (simp add: fits_uint8_def)
  have "background_pixel height width y x img = setitem_pixel img y x [q, q - 20, q - 40]"
    using assms by (simp add: background_pixel_def py_truediv_def q_def Let_def)
  then show ?thesis using setitem_pixel_ok [OF assms, of q "q - 20" "q - 40"] f by auto
qed

lemma portrait_background_ok:
  assumes "has_shape height width img"
  shows "\<exists>img'. portrait_background height width img = Inr img' \<and> has_shape height width img'
           \<and> wrapped img' = wrapped img"
proof -
  let ?I = "\<lambda>s. has_shape height width s \<and> wrapped s = wrapped img"
  have inner: "post (\<lambda>_. False) ?I (for_loop (py_range 0 width) (background_pixel height width y) s)"
    if "?I s" "y \<in> set (py_range 0 height)" for y s
  proof (rule post_for_loop [where I = ?I])
    show "?I s" by fact
    fix x s' assume "x \<in> set (py_range 0 width)" "?I s'"
    then show "post (\<lambda>_. False) ?I (background_pixel height width y x s')"
      using background_pixel_ok [of height width s' y x] that(2) by (auto simp: set_py_range)
  qed
  have "post (\<lambda>_. False) ?I (portrait_background height width img)"
    unfolding portrait_background_def
    by (rule post_for_loop [where I = ?I]) (use assms inner in auto)
  then show ?thesis by (cases "portrait_background height width img") auto
qed


lemma randint_1d_three:
  "randint_1d 180 220 3 g = Inr ([draw 180 220 (g 0), draw 180 220 (g 1), draw 180 220 (g 2)], rng_drop 3 g)"
  by (simp add: randint_1d_def numeral_3_eq_3 numeral_2_eq_2)

lemma face_color_fits: "180 \<le> draw 180 220 r \<and> draw 180 220 r < 220 \<and> fits_uint8 (draw 180 220 r)"
  using draw_range [of 180 220 r] by (simp add: fits_uint8_def)

lemma setitem_mask_ok:
  assumes "has_shape height width img" "mask_rows m = nat height" "mask_cols m = nat width"
  shows "\<exists>img'. setitem_mask img m [a, b, c] = Inr img' \<and> has_shape height width img'
           \<and> (fits_uint8 a \<and> fits_uint8 b \<and> fits_uint8 c \<longrightarrow> wrapped img' = wrapped img)
           \<and> (\<forall>i j k. pix img' i j k =
                 (if i < rows img \<and> j < cols img \<and> covers m i j \<and> k < 3
                  then to_uint8 ([a, b, c] ! k) else pix img i j k))"
proof -
  have "\<And>k. k < 3 \<Longrightarrow> fits_uint8 a \<and> fits_uint8 b \<and> fits_uint8 c \<Longrightarrow> fits_uint8 ([a, b, c] ! k)"
    by (rule nth3) simp_all
  then show ?thesis using assms
    by (auto simp: setitem_mask_def has_shape_def broadcast_color3)
qed

lemma create_portrait_image_ok:
  assumes "0 \<le> height" "0 \<le> width"
  shows "\<exists>img g'. create_portrait_image (height, width) g = Inr (img, g')
           \<and> has_shape height width img \<and> \<not> wrapped img"
proof -
  obtain img0 where i0: "np_full height width 0 = Inr img0" "has_shape height width img0" "\<not> wrapped img0"
    using np_full_ok [OF assms, of 0] by (auto simp: fits_uint8_def)
  obtain img1 where i1: "portrait_background height width img0 = Inr img1" "has_shape height width img1"
     "wrapped img1 = wrapped img0"
    using portrait_background_ok [OF i0(2)] by blast
  let ?fc = "[draw 180 220 (g 0), draw 180 220 (g 1), draw 180 220 (g 2)]"
  have m: "mask_rows (face_mask height width) = nat height" "mask_cols (face_mask height width) = nat width"
    by (simp_all add: face_mask_def circle_mask_def Let_def)
  obtain img2 where i2: "setitem_mask img1 (face_mask height width) ?fc = Inr img2"
     "has_shape height width img2" "wrapped img2 = wrapped img1"
    using setitem_mask_ok [OF i1(2) m(1,2), of "draw 180 220 (g 0)" "draw 180 220 (g 1)" "draw 180 220 (g 2)"]
    by (auto simp: face_color_fits)
  have pb: "portrait_before_noise (height, width) g = Inr (img2, ?fc, rng_drop 3 g)"
    by (simp add: portrait_before_noise_def i0 i1 portrait_face_def randint_1d_three i2 del: One_nat_def)
  obtain noise g' where n: "add_noise (- 15) 15 height width img2 (rng_drop 3 g) = Inr (clip_sum img2 noise, g')"
     "has_shape height width (clip_sum img2 noise)" "wrapped (clip_sum img2 noise) = wrapped img2"
    using add_noise_ok [OF i2(2) assms, of "- 15" 15 "rng_drop 3 g"] by auto
  show ?thesis using pb n i2(3) i1(3) i0(3) by (simp add: create_portrait_image_def)
qed

subsection \<open>The windows of the Architecture generator\<close>

lemma slice_unclipped:
  assumes "0 \<le> a" "a \<le> b" "b \<le> int n"
  shows "in_slice n (Some a, Some b) i = (a \<le> int i \<and> int i < b)"
  using assms by (auto simp: in_slice_def slice_start_def slice_stop_def slice_bound_def)

lemma window_rect_bounds:
  assumes "0 \<le> height" "0 \<le> width"
    "py_range_step 0 width (width div 8 * 2) = Inr buildings" "building \<in> set buildings"
    "py_range_step (height div 12) (height - height div 12) (height div 12) = Inr floors"
    "floor_y \<in> set floors"
    "window_rect (width div 8) (height div 12) building floor_y = (wx, wy, ww, wh)"
  shows "0 \<le> wx \<and> 0 \<le> wy \<and> 0 \<le> ww \<and> 0 \<le> wh"
proof -
  have "0 \<le> width div 8 * 2" "0 \<le> height div 12" using assms(1,2) by simp_all
  then have "0 \<le> building" "0 \<le> floor_y"
    using py_range_step_mem [OF assms(3,4)] py_range_step_mem [OF assms(5,6)] by auto
  moreover have "0 \<le> width div 8 div 4" "0 \<le> height div 12 div 4"
    "0 \<le> width div 8 div 2" "0 \<le> height div 12 div 2"
    using assms(1,2) by (simp_all add: pos_imp_zdiv_nonneg_iff)
  moreover have "wx = building + width div 8 div 4" "wy = floor_y + height div 12 div 4"
    "ww = width div 8 div 2" "wh = height div 12 div 2"
    using assms(7) by (simp_all add: window_rect_def Let_def)
  ultimately show ?thesis by simp
qed

lemma range_16: "py_range_step 0 16 (16 div 8 * 2) = Inr (map (\<lambda>i. 0 + int i * 4) [0..<4])"
  by (simp add: py_range_step_def)
lemma range_24: "py_range_step (24 div 12) (24 - 24 div 12) (24 div 12) = Inr (map (\<lambda>i. 2 + int i * 2) [0..<10])"
  by (simp add: py_range_step_def)
lemma mem_16: "4 \<in> set (map (\<lambda>i. 0 + int i * 4) [0..<4])"
  by (simp add: image_iff)
lemma mem_24: "6 \<in> set (map (\<lambda>i. 2 + int i * 2) [0..<10])"
  by (simp add: image_iff)

subsection \<open>The Landscape generator\<close>

lemma py_range_Cons: "a < b \<Longrightarrow> py_range a b = a # py_range (a + 1) b"
  by (simp add: py_range_def upto_rec1)

lemma py_range_empty: "b \<le> a \<Longrightarrow> py_range a b = []"
  by (simp add: py_range_def)

lemma for_loop_head_fails: "xs = x # ys \<Longrightarrow> body x s = Inl e \<Longrightarrow> for_loop xs body s = Inl e"
  by simp

lemma post_returns: "post (\<lambda>_. False) P r \<Longrightarrow> \<exists>v. r = Inr v \<and> P v"
  by (cases r) simp_all

lemma sky_intensity_bounds:
  assumes "0 \<le> y" "y < s"
  shows "120 \<le> py_int (120 + (180 - 120) * (1 - real_of_int y / real_of_int s))
       \<and> py_int (120 + (180 - 120) * (1 - real_of_int y / real_of_int s)) \<le> 180"
proof -
  have s: "0 < real_of_int s" using assms by simp
  have "0 \<le> real_of_int y / real_of_int s" using assms by simp
  moreover have "real_of_int y / real_of_int s \<le> 1" using assms s by (simp add: divide_le_eq)
  ultimately have "real_of_int 120 \<le> 120 + (180 - 120) * (1 - real_of_int y / real_of_int s)"
    "120 + (180 - 120) * (1 - real_of_int y / real_of_int s) \<le> real_of_int 180"
    by simp_all
  then show ?thesis by (intro py_int_bounds) simp_all
qed

lemma sky_row_ok:
  assumes "has_shape height width img" "0 \<le> y" "y < sky_height" "sky_height \<le> height"
  shows "\<exists>img'. sky_row sky_height y img = Inr img' \<and> has_shape height width img'
           \<and> wrapped img' = wrapped img"
proof -
  define q where "q = py_int (120 + (180 - 120) * (1 - real_of_int y / real_of_int sky_height))"
  have b: "120 \<le> q \<and> q \<le> 180" unfolding q_def by (rule sky_intensity_bounds [OF assms(2,3)])
  then have f: "fits_uint8 q \<and> fits_uint8 (q - 30) \<and> fits_uint8 (q - 60)" by (simp add: fits_uint8_def)
  have "sky_row sky_height y img = setitem_row img y (Arr1 [q, q - 30, q - 60])"
    using assms by (simp add: sky_row_def py_truediv_def q_def Let_def)
  moreover have "y < height" using assms(3,4) by simp
  ultimately show ?thesis using setitem_row_Arr1 [OF assms(1,2), of q "q - 30" "q - 60"] f by auto
qed

lemma landscape_sky_ok:
  assumes "has_shape height width img" "0 \<le> height"
  shows "\<exists>img'. landscape_sky height img = Inr img' \<and> has_shape height width img'
           \<and> wrapped img' = wrapped img"
proof -
  let ?I = "\<lambda>s. has_shape height width s \<and> wrapped s = wrapped img"
  have le: "height div 3 \<le> height" using assms(2) by simp
  have "post (\<lambda>_. False) ?I (landscape_sky height img)"
    unfolding landscape_sky_def sky_rows_def Let_def
  proof (rule post_for_loop [where I = ?I])
    show "?I img" using assms by simp
    fix y s assume "y \<in> set (py_range 0 (height div 3))" "?I s"
    then show "post (\<lambda>_. False) ?I (sky_row (height div 3) y s)"
      using sky_row_ok [of height width s y "height div 3"] le by (auto simp: set_py_range)
  qed
  then show ?thesis using post_returns by blast
qed


lemma randint_1d_ok:
  "low < high \<Longrightarrow> 0 \<le> n \<Longrightarrow>
   randint_1d low high n g = Inr (map (\<lambda>i. draw low high (g i)) [0..<nat n], rng_drop (nat n) g)"
  by (simp add: randint_1d_def)

lemma band_row_fails:
  assumes "has_shape height width img" "0 \<le> y" "y < height" "width \<noteq> 3" "0 \<le> width"
    "length r0 = nat width"
  shows "setitem_row img y (Arr2 [r0, r1, r2]) = Inl (ValueError could_not_broadcast)"
proof -
  have "nat width \<noteq> 3" using assms(4,5) by linarith
  then show ?thesis using assms
    by (simp add: setitem_row_def has_shape_def py_index_ok broadcast_row_Arr2 [OF assms(6)])
qed

lemma band_row_ok:
  assumes "has_shape height 3 img" "0 \<le> y" "y < height"
    "length r0 = 3" "length r1 = 3" "length r2 = 3"
    "\<forall>k<3. fits_uint8 (r0 ! k) \<and> fits_uint8 (r1 ! k) \<and> fits_uint8 (r2 ! k)"
  shows "\<exists>img'. setitem_row img y (Arr2 [r0, r1, r2]) = Inr img' \<and> has_shape height 3 img'
           \<and> wrapped img' = wrapped img"
proof -
  have f: "\<And>x k. x < 3 \<Longrightarrow> k < 3 \<Longrightarrow> fits_uint8 ([r0, r1, r2] ! x ! k)"
  proof -
    fix x k :: nat assume x: "x < 3" and k: "k < 3"
    show "fits_uint8 ([r0, r1, r2] ! x ! k)"
      by (rule nth3 [where P = "\<lambda>r. fits_uint8 (r ! k)", OF x]) (use assms(7) k in auto)
  qed
  show ?thesis using assms(1-3) f
    by (auto simp: setitem_row_def has_shape_def py_index_ok broadcast_row_Arr2 [OF assms(4)])
qed

lemma mountain_row_fails:
  assumes "has_shape height width img" "0 \<le> y" "y < height" "width \<noteq> 3" "0 \<le> width"
  shows "mountain_row width y (img, g) = Inl (ValueError could_not_broadcast)"
  using assms
  by (simp add: mountain_row_def randint_1d_ok Let_def band_row_fails [OF assms])

lemma ground_row_fails:
  assumes "has_shape height width img" "0 \<le> y" "y < height" "width \<noteq> 3" "0 \<le> width"
  shows "ground_row width y (img, g) = Inl (ValueError could_not_broadcast)"
  using assms
  by (simp add: ground_row_def randint_1d_ok Let_def band_row_fails [OF assms])

lemma band_values:
  "k < n \<Longrightarrow> map (\<lambda>m. c + m) (map (\<lambda>i. draw lo hi (g i)) [0..<n]) ! k = c + draw lo hi (g k)"
  "k < n \<Longrightarrow> map f (map (\<lambda>m. c + m) (map (\<lambda>i. draw lo hi (g i)) [0..<n])) ! k = f (c + draw lo hi (g k))"
  by simp_all

lemma mountain_row_ok:
  assumes "has_shape height 3 img" "0 \<le> y" "y < height"
  shows "\<exists>img' g'. mountain_row 3 y (img, g) = Inr (img', g') \<and> has_shape height 3 img'
           \<and> wrapped img' = wrapped img"
proof -
  define b where "b = map (\<lambda>n. 80 + n) (map (\<lambda>i. draw (- 20) 20 (g i)) [0..<3])"
  have "\<forall>k<3. fits_uint8 (b ! k) \<and> fits_uint8 (map (\<lambda>b. b - 10) b ! k) \<and> fits_uint8 (map (\<lambda>b. b - 20) b ! k)"
  proof (intro allI impI)
    fix k :: nat assume k: "k < 3"
    have "- 20 \<le> draw (- 20) 20 (g k) \<and> draw (- 20) 20 (g k) < 20" by (rule draw_range) simp
    then show "fits_uint8 (b ! k) \<and> fits_uint8 (map (\<lambda>b. b - 10) b ! k) \<and> fits_uint8 (map (\<lambda>b. b - 20) b ! k)"
      unfolding b_def band_values [OF k] by (simp add: fits_uint8_def)
  qed
  moreover have "length b = 3" "length (map (\<lambda>b. b - 10) b) = 3" "length (map (\<lambda>b. b - 20) b) = 3"
    by (simp_all add: b_def)
  ultimately obtain img' where "setitem_row img y (Arr2 [b, map (\<lambda>b. b - 10) b, map (\<lambda>b. b - 20) b]) = Inr img'"
    "has_shape height 3 img'" "wrapped img' = wrapped img"
    using band_row_ok [OF assms, of b "map (\<lambda>b. b - 10) b" "map (\<lambda>b. b - 20) b"] by blast
  moreover have "mountain_row 3 y (img, g)
      = ebind (setitem_row img y (Arr2 [b, map (\<lambda>b. b - 10) b, map (\<lambda>b. b - 20) b]))
          (\<lambda>img'. Inr (img', rng_drop 3 g))"
    unfolding b_def by (simp add: mountain_row_def randint_1d_ok Let_def del: map_map)
  ultimately show ?thesis by simp
qed

lemma ground_row_ok:
  assumes "has_shape height 3 img" "0 \<le> y" "y < height"
  shows "\<exists>img' g'. ground_row 3 y (img, g) = Inr (img', g') \<and> has_shape height 3 img'
           \<and> wrapped img' = wrapped img"
proof -
  define b where "b = map (\<lambda>n. 100 + n) (map (\<lambda>i. draw (- 15) 15 (g i)) [0..<3])"
  have "\<forall>k<3. fits_uint8 (map (\<lambda>b. b - 40) b ! k) \<and> fits_uint8 (b ! k) \<and> fits_uint8 (map (\<lambda>b. b - 60) b ! k)"
  proof (intro allI impI)
    fix k :: nat assume k: "k < 3"
    have "- 15 \<le> draw (- 15) 15 (g k) \<and> draw (- 15) 15 (g k) < 15" by (rule draw_range) simp
    then show "fits_uint8 (map (\<lambda>b. b - 40) b ! k) \<and> fits_uint8 (b ! k) \<and> fits_uint8 (map (\<lambda>b. b - 60) b ! k)"
      unfolding b_def band_values [OF k] by (simp add: fits_uint8_def)
  qed
  moreover have "length b = 3" "length (map (\<lambda>b. b - 40) b) = 3" "length (map (\<lambda>b. b - 60) b) = 3"
    by (simp_all add: b_def)
  ultimately obtain img' where "setitem_row img y (Arr2 [map (\<lambda>b. b - 40) b, b, map (\<lambda>b. b - 60) b]) = Inr img'"
    "has_shape height 3 img'" "wrapped img' = wrapped img"
    using band_row_ok [OF assms, of "map (\<lambda>b. b - 40) b" b "map (\<lambda>b. b - 60) b"] by blast
  moreover have "ground_row 3 y (img, g)
      = ebind (setitem_row img y (Arr2 [map (\<lambda>b. b - 40) b, b, map (\<lambda>b. b - 60) b]))
          (\<lambda>img'. Inr (img', rng_drop 3 g))"
    unfolding b_def by (simp add: ground_row_def randint_1d_ok Let_def del: map_map)
  ultimately show ?thesis by simp
qed


lemma band_rows_in_range:
  assumes "0 \<le> height"
  shows "y \<in> set (sky_rows height) \<Longrightarrow> 0 \<le> y \<and> y < height"
    "y \<in> set (mountain_rows height) \<Longrightarrow> 0 \<le> y \<and> y < height"
    "y \<in> set (ground_rows height) \<Longrightarrow> 0 \<le> y \<and> y < height"
proof -
  have d: "0 \<le> height div 3" "0 \<le> height div 4" "height div 3 \<le> height"
    "height div 3 + height div 4 \<le> height"
    using assms by simp_all
  show "y \<in> set (sky_rows height) \<Longrightarrow> 0 \<le> y \<and> y < height"
    using d by (auto simp: sky_rows_def Let_def set_py_range)
  show "y \<in> set (mountain_rows height) \<Longrightarrow> 0 \<le> y \<and> y < height"
    using d by (auto simp: mountain_rows_def Let_def set_py_range)
  show "y \<in> set (ground_rows height) \<Longrightarrow> 0 \<le> y \<and> y < height"
    using d by (auto simp: ground_rows_def Let_def set_py_range)
qed

lemma mountain_rows_Cons:
  "4 \<le> height \<Longrightarrow> \<exists>ys. mountain_rows height = height div 3 # ys"
  by (simp add: mountain_rows_def Let_def py_range_Cons)

lemma mountain_rows_empty: "height < 4 \<Longrightarrow> 0 \<le> height \<Longrightarrow> mountain_rows height = []"
  by (simp add: mountain_rows_def Let_def py_range_empty)

lemma ground_rows_Cons:
  "1 \<le> height \<Longrightarrow> \<exists>ys. ground_rows height = (height div 3 + height div 4) # ys"
  by (simp add: ground_rows_def Let_def py_range_Cons)

lemma ground_rows_empty: "ground_rows 0 = []" "sky_rows 0 = []"
  by (simp_all add: ground_rows_def sky_rows_def Let_def py_range_empty)

lemma landscape_mountains_fails:
  assumes "has_shape height width img" "4 \<le> height" "0 \<le> width" "width \<noteq> 3"
  shows "landscape_mountains height width (img, g) = Inl (ValueError could_not_broadcast)"
proof -
  obtain ys where ys: "mountain_rows height = height div 3 # ys"
    using mountain_rows_Cons [OF assms(2)] by blast
  have "0 \<le> height div 3" "height div 3 < height" using assms(2) by simp_all
  then have "mountain_row width (height div 3) (img, g) = Inl (ValueError could_not_broadcast)"
    using assms by (intro mountain_row_fails) simp_all
  then show ?thesis unfolding landscape_mountains_def by (rule for_loop_head_fails [OF ys])
qed

lemma landscape_mountains_skip:
  "height < 4 \<Longrightarrow> 0 \<le> height \<Longrightarrow> landscape_mountains height width s = Inr s"
  by (simp add: landscape_mountains_def mountain_rows_empty)

lemma landscape_ground_fails:
  assumes "has_shape height width img" "1 \<le> height" "0 \<le> width" "width \<noteq> 3"
  shows "landscape_ground height width (img, g) = Inl (ValueError could_not_broadcast)"
proof -
  obtain ys where ys: "ground_rows height = (height div 3 + height div 4) # ys"
    using ground_rows_Cons [OF assms(2)] by blast
  have "0 \<le> height div 3 + height div 4" "height div 3 + height div 4 < height"
    using assms(2) by simp_all
  then have "ground_row width (height div 3 + height div 4) (img, g) = Inl (ValueError could_not_broadcast)"
    using assms by (intro ground_row_fails) simp_all
  then show ?thesis unfolding landscape_ground_def by (rule for_loop_head_fails [OF ys])
qed

lemma landscape_bands_ok:
  assumes "has_shape height 3 img" "0 \<le> height"
  shows "\<exists>img' g'. landscape_mountains height 3 (img, g) = Inr (img', g')
           \<and> has_shape height 3 img' \<and> wrapped img' = wrapped img"
    and "\<exists>img' g'. landscape_ground height 3 (img, g) = Inr (img', g')
           \<and> has_shape height 3 img' \<and> wrapped img' = wrapped img"
proof -
  let ?I = "\<lambda>s :: canvas \<times> rng. has_shape height 3 (fst s) \<and> wrapped (fst s) = wrapped img"
  have "post (\<lambda>_. False) ?I (landscape_mountains height 3 (img, g))"
    unfolding landscape_mountains_def
  proof (rule post_for_loop [where I = ?I])
    show "?I (img, g)" using assms by simp
    fix y s assume "y \<in> set (mountain_rows height)" "?I s"
    then show "post (\<lambda>_. False) ?I (mountain_row 3 y s)"
      using mountain_row_ok [of height "fst s" y "snd s"] band_rows_in_range(2) [OF assms(2)]
      by (cases s) auto
  qed
  then show "\<exists>img' g'. landscape_mountains height 3 (img, g) = Inr (img', g')
           \<and> has_shape height 3 img' \<and> wrapped img' = wrapped img"
    using post_returns by fastforce
  have "post (\<lambda>_. False) ?I (landscape_ground height 3 (img, g))"
    unfolding landscape_ground_def
  proof (rule post_for_loop [where I = ?I])
    show "?I (img, g)" using assms by simp
    fix y s assume "y \<in> set (ground_rows height)" "?I s"
    then show "post (\<lambda>_. False) ?I (ground_row 3 y s)"
      using ground_row_ok [of height "fst s" y "snd s"] band_rows_in_range(3) [OF assms(2)]
      by (cases s) auto
  qed
  then show "\<exists>img' g'. landscape_ground height 3 (img, g) = Inr (img', g')
           \<and> has_shape height 3 img' \<and> wrapped img' = wrapped img"
    using post_returns by fastforce
qed

lemma create_landscape_image_neg:
  "height < 0 \<or> width < 0 \<Longrightarrow>
   create_landscape_image (height, width) g = Inl (ValueError negative_dimensions)"
  by (simp add: create_landscape_image_def np_full_neg)

lemma create_landscape_image_fails:
  assumes "1 \<le> height" "0 \<le> width" "width \<noteq> 3"
  shows "create_landscape_image (height, width) g = Inl (ValueError could_not_broadcast)"
proof -
  have h: "0 \<le> height" using assms(1) by simp
  obtain img0 where i0: "np_full height width 0 = Inr img0" "has_shape height width img0"
    using np_full_ok [OF h assms(2), of 0] by (auto simp: fits_uint8_def)
  obtain img1 where i1: "landscape_sky height img0 = Inr img1" "has_shape height width img1"
    using landscape_sky_ok [OF i0(2) h] by blast
  show ?thesis
  proof (cases "4 \<le> height")
    case True
    then show ?thesis
      by (simp add: create_landscape_image_def i0 i1 landscape_mountains_fails [OF i1(2) True assms(2,3)])
  next
    case False
    then have "landscape_mountains height width (img1, g) = Inr (img1, g)"
      using h by (intro landscape_mountains_skip) simp_all
    then show ?thesis
      by (simp add: create_landscape_image_def i0 i1 landscape_ground_fails [OF i1(2) assms])
  qed
qed

lemma create_landscape_image_width3:
  assumes "0 \<le> height"
  shows "\<exists>img g'. create_landscape_image (height, 3) g = Inr (img, g')
           \<and> has_shape height 3 img \<and> \<not> wrapped img"
proof -
  obtain img0 where i0: "np_full height 3 0 = Inr img0" "has_shape height 3 img0" "\<not> wrapped img0"
    using np_full_ok [OF assms, of 3 0] by (auto simp: fits_uint8_def)
  obtain img1 where i1: "landscape_sky height img0 = Inr img1" "has_shape height 3 img1"
     "wrapped img1 = wrapped img0"
    using landscape_sky_ok [OF i0(2) assms] by blast
  obtain img2 g2 where i2: "landscape_mountains height 3 (img1, g) = Inr (img2, g2)"
     "has_shape height 3 img2" "wrapped img2 = wrapped img1"
    using landscape_bands_ok(1) [OF i1(2) assms] by blast
  obtain img3 g3 where i3: "landscape_ground height 3 (img2, g2) = Inr (img3, g3)"
     "has_shape height 3 img3" "wrapped img3 = wrapped img2"
    using landscape_bands_ok(2) [OF i2(2) assms] by blast
  obtain noise g' where n: "add_noise (- 10) 10 height 3 img3 g3 = Inr (clip_sum img3 noise, g')"
     "has_shape height 3 (clip_sum img3 noise)" "wrapped (clip_sum img3 noise) = wrapped img3"
    using add_noise_ok [OF i3(2) assms, of "- 10" 10 g3] by auto
  show ?thesis using i0 i1 i2 i3 n by (simp add: create_landscape_image_def)
qed

lemma create_landscape_image_height0:
  assumes "0 \<le> width"
  shows "\<exists>img g'. create_landscape_image (0, width) g = Inr (img, g')
           \<and> has_shape 0 width img \<and> \<not> wrapped img"
proof -
  obtain img0 where i0: "np_full 0 width 0 = Inr img0" "has_shape 0 width img0" "\<not> wrapped img0"
    using np_full_ok [OF _ assms, of 0 0] by (auto simp: fits_uint8_def)
  obtain noise g' where n: "add_noise (- 10) 10 0 width img0 g = Inr (clip_sum img0 noise, g')"
     "has_shape 0 width (clip_sum img0 noise)" "wrapped (clip_sum img0 noise) = wrapped img0"
    using add_noise_ok [OF i0(2) _ assms, of "- 10" 10 g] by auto
  show ?thesis using i0 n
    by (simp add: create_landscape_image_def landscape_sky_def landscape_mountains_skip
        landscape_ground_def ground_rows_empty)
qed

subsection \<open>The Nature and Abstract generators\<close>

lemma abstract_shape_fails:
  "abstract_shape height width (img, g) = Inl (ValueError not_1_dimensional)"
proof -
  obtain v where "random_choice shapes g = Inr (v, rng_drop 1 g)" using choice_shapes by blast
  then show ?thesis by (simp add: abstract_shape_def choice_colors)
qed

lemma setitem_channel_ok:
  assumes "has_shape height width img" "0 \<le> c" "c < 3" "\<forall>i j. fits_uint8 (vals i j)"
  shows "\<exists>img'. setitem_channel img c vals = Inr img' \<and> has_shape height width img'
           \<and> wrapped img' = wrapped img"
  using assms by (simp add: setitem_channel_def has_shape_def py_index_ok)

lemma nature_background_ok:
  assumes "has_shape height width img" "0 \<le> height" "0 \<le> width"
  shows "\<exists>img'. nature_background height width img = Inr img' \<and> has_shape height width img'
           \<and> wrapped img' = wrapped img"
proof -
  obtain x y where l: "np_linspace 0 (4 * pi) width = Inr x" "np_linspace 0 (4 * pi) height = Inr y"
    using assms(2,3) by (simp add: np_linspace_def)
  let ?b = "\<lambda>i j. np_clip ((120 - 60) + py_int (combined_pattern (x j) (y i) * 20)) 0 255"
  let ?g = "\<lambda>i j. np_clip (120 + py_int (combined_pattern (x j) (y i) * 50)) 0 255"
  let ?r = "\<lambda>i j. np_clip ((120 - 40) + py_int (combined_pattern (x j) (y i) * 30)) 0 255"
  obtain img1 where i1: "setitem_channel img 0 ?b = Inr img1" "has_shape height width img1"
     "wrapped img1 = wrapped img"
    using setitem_channel_ok [OF assms(1), of 0 ?b] by (auto simp: np_clip_fits)
  obtain img2 where i2: "setitem_channel img1 1 ?g = Inr img2" "has_shape height width img2"
     "wrapped img2 = wrapped img1"
    using setitem_channel_ok [OF i1(2), of 1 ?g] by (auto simp: np_clip_fits)
  obtain img3 where i3: "setitem_channel img2 2 ?r = Inr img3" "has_shape height width img3"
     "wrapped img3 = wrapped img2"
    using setitem_channel_ok [OF i2(2), of 2 ?r] by (auto simp: np_clip_fits)
  have "nature_background height width img = Inr img3"
    using l i1(1) i2(1) i3(1) by (simp add: nature_background_def Let_def)
  then show ?thesis using i3 i2(3) i1(3) by simp
qed

lemma nature_spot_raises:
  "\<exists>v. nature_spot height width (img, g) = Inl (ValueError v)"
  by (simp add: nature_spot_def randint_def choice_spot_colors)

lemma nature_spot_raises_choice:
  "20 < height \<Longrightarrow> 20 < width \<Longrightarrow>
   nature_spot height width (img, g) = Inl (ValueError not_1_dimensional)"
  by (simp add: nature_spot_def randint_def choice_spot_colors)

lemma create_nature_image_raises:
  "\<exists>v. create_nature_image (height, width) g = Inl (ValueError v)"
proof (cases "height < 0 \<or> width < 0")
  case True
  then show ?thesis by (simp add: create_nature_image_def np_full_neg)
next
  case False
  then have hw: "0 \<le> height" "0 \<le> width" by simp_all
  obtain img0 where i0: "np_full height width 0 = Inr img0" "has_shape height width img0"
    using np_full_ok [OF hw, of 0] by (auto simp: fits_uint8_def)
  obtain img1 where i1: "nature_background height width img0 = Inr img1"
    using nature_background_ok [OF i0(2) hw] by blast
  obtain v where "nature_spot height width (img1, g) = Inl (ValueError v)"
    using nature_spot_raises by blast
  then have "for_loop (py_range 0 50) (\<lambda>_. nature_spot height width) (img1, g) = Inl (ValueError v)"
    by (simp add: py_range_Cons)
  then show ?thesis by (simp add: create_nature_image_def i0 i1)
qed

lemma create_nature_image_raises_choice:
  assumes "20 < height" "20 < width"
  shows "create_nature_image (height, width) g = Inl (ValueError not_1_dimensional)"
proof -
  have hw: "0 \<le> height" "0 \<le> width" using assms by simp_all
  obtain img0 where i0: "np_full height width 0 = Inr img0" "has_shape height width img0"
    using np_full_ok [OF hw, of 0] by (auto simp: fits_uint8_def)
  obtain img1 where i1: "nature_background height width img0 = Inr img1"
    using nature_background_ok [OF i0(2) hw] by blast
  have "for_loop (py_range 0 50) (\<lambda>_. nature_spot height width) (img1, g)
        = Inl (ValueError not_1_dimensional)"
    by (simp add: py_range_Cons nature_spot_raises_choice [OF assms])
  then show ?thesis by (simp add: create_nature_image_def i0 i1)
qed

lemma randint_canvas_cases:
  "(height < 0 \<or> width < 0 \<longrightarrow>
      randint_canvas 50 200 height width g = Inl (ValueError negative_dimensions))
   \<and> (0 \<le> height \<and> 0 \<le> width \<longrightarrow>
      (\<exists>img g'. randint_canvas 50 200 height width g = Inr (img, g')
          \<and> has_shape height width img \<and> \<not> wrapped img))"
proof -
  have "fits_uint8 (draw 50 200 r)" for r
    using draw_range [of 50 200 r] by (simp add: fits_uint8_def)
  then show ?thesis
    by (auto simp: randint_canvas_def randint_3d_def has_shape_def)
qed

lemma create_abstract_image_raises:
  "\<exists>v. create_abstract_image (height, width) g = Inl (ValueError v)"
  "0 \<le> height \<Longrightarrow> 0 \<le> width \<Longrightarrow>
   create_abstract_image (height, width) g = Inl (ValueError not_1_dimensional)"
proof -
  have pos: "create_abstract_image (height, width) g = Inl (ValueError not_1_dimensional)"
    if hw: "0 \<le> height" "0 \<le> width"
  proof -
    obtain img g' where "randint_canvas 50 200 height width g = Inr (img, g')"
      using randint_canvas_cases [of height width g] hw by blast
    then show ?thesis
      by (simp add: create_abstract_image_def py_range_Cons abstract_shape_fails)
  qed
  then show "0 \<le> height \<Longrightarrow> 0 \<le> width \<Longrightarrow>
   create_abstract_image (height, width) g = Inl (ValueError not_1_dimensional)" .
  show "\<exists>v. create_abstract_image (height, width) g = Inl (ValueError v)"
  proof (cases "height < 0 \<or> width < 0")
    case True
    then have "randint_canvas 50 200 height width g = Inl (ValueError negative_dimensions)"
      using randint_canvas_cases [of height width g] by blast
    then show ?thesis by (simp add: create_abstract_image_def)
  next
    case False
    then show ?thesis using pos by simp
  qed
qed

subsection \<open>Drawing\<close>

lemma in_slice_bounded: "in_slice n s i \<Longrightarrow> i < n"
  by (cases s) (auto simp: in_slice_def slice_stop_def slice_bound_def split: option.splits if_splits)

lemma broadcast_color_len3: "length color = 3 \<Longrightarrow> broadcast_color 3 color = Inr (\<lambda>k. color ! k)"
  by (simp add: broadcast_color_def)

subsection \<open>The Architecture generator\<close>

lemma randint_ok: "low < high \<Longrightarrow> randint low high g = Inr (draw low high (g 0), rng_drop 1 g)"
  by (simp add: randint_def)

lemma py_range_step_ok: "step \<noteq> 0 \<Longrightarrow> \<exists>xs. py_range_step start stop step = Inr xs"
  by (simp add: py_range_step_def)

lemma py_range_step_zero: "py_range_step start stop 0 = Inl (ValueError range_step_zero)"
  by (simp add: py_range_step_def)

lemma stripe_ok:
  assumes "has_shape height width img"
  shows "\<exists>img' g'. stripe width stripe_width i (img, g) = Inr (img', g')
           \<and> has_shape height width img' \<and> wrapped img' = wrapped img"
proof -
  define c where "c = draw 80 180 (g 0)"
  have "80 \<le> c \<and> c < 180" unfolding c_def by (rule draw_range) simp
  then have f: "fits_uint8 c \<and> fits_uint8 (c - 20) \<and> fits_uint8 (c - 30)"
    by (simp add: fits_uint8_def)
  obtain img' where "setitem_region img (None, None) (Some i, Some (min (i + stripe_width) width))
                        [c, c - 20, c - 30] = Inr img'"
    "has_shape height width img'" "wrapped img' = wrapped img"
    using setitem_region_ok [OF assms, of "(None, None)" "(Some i, Some (min (i + stripe_width) width))" c "c - 20" "c - 30"] f
    by blast
  then show ?thesis by (simp add: stripe_def randint_ok Let_def c_def)
qed

lemma floor_line_ok:
  assumes "has_shape height width img"
  shows "\<exists>img'. floor_line height y img = Inr img'
           \<and> has_shape height width img' \<and> wrapped img' = wrapped img"
proof (cases "y < height")
  case True
  then show ?thesis
    using setitem_region_ok [OF assms, of "(Some y, Some (y + 3))" "(None, None)" 60 60 60]
    by (simp add: floor_line_def fits_uint8_def)
next
  case False
  then show ?thesis using assms by (simp add: floor_line_def)
qed

lemma window_ok:
  assumes "has_shape height width img"
  shows "\<exists>img' g'. window height width stripe_width floor_spacing building floor_y (img, g)
                      = Inr (img', g')
           \<and> has_shape height width img' \<and> wrapped img' = wrapped img"
proof -
  obtain wx wy ww wh where r: "window_rect stripe_width floor_spacing building floor_y = (wx, wy, ww, wh)"
    by (cases "window_rect stripe_width floor_spacing building floor_y") auto
  obtain q g' where rs: "random_sample g = (q, g')" by (cases "random_sample g")
  show ?thesis
  proof (cases "window_drawn height width (wx, wy, ww, wh)")
    case False
    then show ?thesis using assms r by (simp add: window_def)
  next
    case True
    obtain a where a: "setitem_region img (Some wy, Some (wy + wh)) (Some wx, Some (wx + ww))
                         [200, 220, 180] = Inr a" "has_shape height width a" "wrapped a = wrapped img"
      using setitem_region_ok [OF assms, of "(Some wy, Some (wy + wh))" "(Some wx, Some (wx + ww))" 200 220 180]
      by (auto simp: fits_uint8_def)
    obtain b where b: "setitem_region img (Some wy, Some (wy + wh)) (Some wx, Some (wx + ww))
                         [40, 50, 60] = Inr b" "has_shape height width b" "wrapped b = wrapped img"
      using setitem_region_ok [OF assms, of "(Some wy, Some (wy + wh))" "(Some wx, Some (wx + ww))" 40 50 60]
      by (auto simp: fits_uint8_def)
    show ?thesis
    proof (cases "q > 0.3")
      case q: True
      have "window height width stripe_width floor_spacing building floor_y (img, g) = Inr (a, g')"
        unfolding window_def using r True rs q a(1) by (simp add: Let_def)
      then show ?thesis using a by simp
    next
      case q: False
      have "window height width stripe_width floor_spacing building floor_y (img, g) = Inr (b, g')"
        unfolding window_def using r True rs q b(1) by (simp add: Let_def)
      then show ?thesis using b by simp
    qed
  qed
qed


lemma building_windows_ok:
  assumes "has_shape height width img" "floor_spacing \<noteq> 0"
  shows "\<exists>img' g'. building_windows height width stripe_width floor_spacing building (img, g)
                      = Inr (img', g')
           \<and> has_shape height width img' \<and> wrapped img' = wrapped img"
proof -
  obtain floors where fl: "py_range_step floor_spacing (height - floor_spacing) floor_spacing = Inr floors"
    using py_range_step_ok [OF assms(2)] by blast
  let ?I = "\<lambda>s :: canvas \<times> rng. has_shape height width (fst s) \<and> wrapped (fst s) = wrapped img"
  have "post (\<lambda>_. False) ?I
          (for_loop floors (window height width stripe_width floor_spacing building) (img, g))"
  proof (rule post_for_loop [where I = ?I])
    show "?I (img, g)" using assms by simp
    fix y s assume "y \<in> set floors" "?I s"
    then show "post (\<lambda>_. False) ?I (window height width stripe_width floor_spacing building y s)"
      using window_ok [of height width "fst s" stripe_width floor_spacing building y "snd s"]
      by (cases s) auto
  qed
  then show ?thesis using post_returns by (fastforce simp: building_windows_def fl)
qed

lemma create_architecture_image_neg:
  "height < 0 \<or> width < 0 \<Longrightarrow>
   create_architecture_image (height, width) g = Inl (ValueError negative_dimensions)"
  by (simp add: create_architecture_image_def np_full_neg)

lemma architecture_stripes_ok:
  assumes "has_shape height width img"
  shows "\<exists>img' g'. for_loop stripes (stripe width stripe_width) (img, g) = Inr (img', g')
           \<and> has_shape height width img' \<and> wrapped img' = wrapped img"
proof -
  let ?I = "\<lambda>s :: canvas \<times> rng. has_shape height width (fst s) \<and> wrapped (fst s) = wrapped img"
  have "post (\<lambda>_. False) ?I (for_loop stripes (stripe width stripe_width) (img, g))"
  proof (rule post_for_loop [where I = ?I])
    show "?I (img, g)" using assms by simp
    fix i s assume "i \<in> set stripes" "?I s"
    then show "post (\<lambda>_. False) ?I (stripe width stripe_width i s)"
      using stripe_ok [of height width "fst s" stripe_width i "snd s"] by (cases s) auto
  qed
  then show ?thesis using post_returns by fastforce
qed

lemma architecture_lines_ok:
  assumes "has_shape height width img"
  shows "\<exists>img'. for_loop lines (floor_line height) img = Inr img'
           \<and> has_shape height width img' \<and> wrapped img' = wrapped img"
proof -
  let ?I = "\<lambda>s. has_shape height width s \<and> wrapped s = wrapped img"
  have "post (\<lambda>_. False) ?I (for_loop lines (floor_line height) img)"
  proof (rule post_for_loop [where I = ?I])
    show "?I img" using assms by simp
    fix y s assume "y \<in> set lines" "?I s"
    then show "post (\<lambda>_. False) ?I (floor_line height y s)"
      using floor_line_ok [of height width s y] by auto
  qed
  then show ?thesis using post_returns by fastforce
qed

lemma architecture_windows_ok:
  assumes "has_shape height width img" "floor_spacing \<noteq> 0"
  shows "\<exists>img' g'. for_loop buildings (building_windows height width stripe_width floor_spacing)
                       (img, g) = Inr (img', g')
           \<and> has_shape height width img' \<and> wrapped img' = wrapped img"
proof -
  let ?I = "\<lambda>s :: canvas \<times> rng. has_shape height width (fst s) \<and> wrapped (fst s) = wrapped img"
  have "post (\<lambda>_. False) ?I
          (for_loop buildings (building_windows height width stripe_width floor_spacing) (img, g))"
  proof (rule post_for_loop [where I = ?I])
    show "?I (img, g)" using assms by simp
    fix b s assume "b \<in> set buildings" "?I s"
    then show "post (\<lambda>_. False) ?I (building_windows height width stripe_width floor_spacing b s)"
      using building_windows_ok [of height width "fst s" floor_spacing stripe_width b "snd s"] assms(2)
      by (cases s) auto
  qed
  then show ?thesis using post_returns by fastforce
qed

lemma create_architecture_image_zero_step:
  assumes "0 \<le> height" "0 \<le> width" "width < 8 \<or> height < 12"
  shows "create_architecture_image (height, width) g = Inl (ValueError range_step_zero)"
proof -
  obtain img0 where i0: "np_full height width 120 = Inr img0" "has_shape height width img0"
    using np_full_ok [OF assms(1,2), of 120] by (auto simp: fits_uint8_def)
  show ?thesis
  proof (cases "width < 8")
    case True
    then have "width div 8 = 0" using assms(2) by simp
    then show ?thesis by (simp add: create_architecture_image_def i0 py_range_step_zero)
  next
    case False
    then have h: "height div 12 = 0" using assms(1,3) by simp
    have "width div 8 * 2 \<noteq> 0" using False by simp
    then obtain stripes where st: "py_range_step 0 width (width div 8 * 2) = Inr stripes"
      using py_range_step_ok by blast
    obtain img1 g1 where i1: "for_loop stripes (stripe width (width div 8)) (img0, g) = Inr (img1, g1)"
      using architecture_stripes_ok [OF i0(2)] by blast
    show ?thesis
      by (simp add: create_architecture_image_def i0 st i1 h py_range_step_zero)
  qed
qed

lemma create_architecture_image_ok:
  assumes "12 \<le> height" "8 \<le> width"
  shows "\<exists>img g'. create_architecture_image (height, width) g = Inr (img, g')
           \<and> has_shape height width img \<and> \<not> wrapped img"
proof -
  have hw: "0 \<le> height" "0 \<le> width" using assms by simp_all
  obtain img0 where i0: "np_full height width 120 = Inr img0" "has_shape height width img0"
     "\<not> wrapped img0"
    using np_full_ok [OF hw, of 120] by (auto simp: fits_uint8_def)
  have sw: "width div 8 * 2 \<noteq> 0" and fs: "height div 12 \<noteq> 0" using assms by simp_all
  obtain stripes where st: "py_range_step 0 width (width div 8 * 2) = Inr stripes"
    using py_range_step_ok [OF sw] by blast
  obtain img1 g1 where i1: "for_loop stripes (stripe width (width div 8)) (img0, g) = Inr (img1, g1)"
     "has_shape height width img1" "wrapped img1 = wrapped img0"
    using architecture_stripes_ok [OF i0(2)] by blast
  obtain lines where ln: "py_range_step (height div 12) height (height div 12) = Inr lines"
    using py_range_step_ok [OF fs] by blast
  obtain img2 where i2: "for_loop lines (floor_line height) img1 = Inr img2"
     "has_shape height width img2" "wrapped img2 = wrapped img1"
    using architecture_lines_ok [OF i1(2)] by blast
  obtain img3 g3 where i3:
     "for_loop stripes (building_windows height width (width div 8) (height div 12)) (img2, g1)
      = Inr (img3, g3)"
     "has_shape height width img3" "wrapped img3 = wrapped img2"
    using architecture_windows_ok [OF i2(2) fs] by blast
  obtain noise g' where n: "add_noise (- 8) 8 height width img3 g3 = Inr (clip_sum img3 noise, g')"
     "has_shape height width (clip_sum img3 noise)" "wrapped (clip_sum img3 noise) = wrapped img3"
    using add_noise_ok [OF i3(2) hw, of "- 8" 8 g3] by auto
  show ?thesis using i0 st i1 ln i2 i3 n
    by (simp add: create_architecture_image_def)
qed

lemma create_portrait_image_neg:
  "height < 0 \<or> width < 0 \<Longrightarrow>
   create_portrait_image (height, width) g = Inl (ValueError negative_dimensions)"
  by (simp add: create_portrait_image_def portrait_before_noise_def np_full_neg)

subsection \<open>The overlay, and the images that are returned\<close>

lemma overlay_alpha_bounds:
  assumes "0 \<le> y" "y < height"
  shows "0 \<le> 0.3 * sin (real_of_int y / real_of_int height * pi)
       \<and> 0.3 * sin (real_of_int y / real_of_int height * pi) \<le> (1::real)"
proof -
  have h: "0 < real_of_int height" using assms by simp
  have q0: "0 \<le> real_of_int y / real_of_int height" using assms by simp
  have q1: "real_of_int y / real_of_int height \<le> 1" using assms h by (simp add: divide_le_eq)
  have "0 \<le> real_of_int y / real_of_int height * pi"
    using q0 by (intro mult_nonneg_nonneg) simp_all
  moreover have "real_of_int y / real_of_int height * pi \<le> 1 * pi"
    using q1 by (intro mult_right_mono) simp_all
  ultimately have s0: "0 \<le> sin (real_of_int y / real_of_int height * pi)"
    by (intro sin_ge_zero) simp_all
  have s1: "sin (real_of_int y / real_of_int height * pi) \<le> 1" by simp
  from s0 s1 show ?thesis by linarith
qed

lemma overlay_value_bounds:
  assumes "0 \<le> a" "a \<le> 1"
  shows "fits_uint8 (py_int (real_of_int (uint (p :: 8 word)) * (1 - a) + 128 * a))"
proof -
  define u where "u = real_of_int (uint p)"
  have "uint p < 2 ^ 8" using uint_lt2p [of p] by simp
  then have "uint p \<le> 255" by simp
  then have u1: "u \<le> 255" unfolding u_def by linarith
  have "0 \<le> uint p" by simp
  then have u0: "0 \<le> u" unfolding u_def by (simp only: of_int_0_le_iff)
  have lo: "0 \<le> u * (1 - a) + 128 * a" using u0 assms by simp
  have "u * (1 - a) \<le> 255 * (1 - a)" using u1 assms by (intro mult_right_mono) simp_all
  moreover have "128 * a \<le> 255 * a" using assms by simp
  ultimately have hi: "u * (1 - a) + 128 * a \<le> 255" by (simp add: algebra_simps)
  have "0 \<le> py_int (u * (1 - a) + 128 * a) \<and> py_int (u * (1 - a) + 128 * a) \<le> 255"
    using lo hi by (intro py_int_bounds) simp_all
  then show ?thesis by (simp add: fits_uint8_def u_def)
qed

lemma overlay_row_ok:
  assumes "has_shape height width img" "0 \<le> y" "y < height"
  shows "\<exists>img'. overlay_row height y img = Inr img' \<and> has_shape height width img'
           \<and> wrapped img' = wrapped img"
proof -
  define a where "a = 0.3 * sin (real_of_int y / real_of_int height * pi)"
  have ab: "0 \<le> a" "a \<le> 1" using overlay_alpha_bounds [OF assms(2,3)] by (simp_all add: a_def)
  have h: "height \<noteq> 0" using assms(2,3) by simp
  have i: "py_index (rows img) y = Inr (nat y)"
    using assms by (intro py_index_ok) (simp_all add: has_shape_def)
  have eq: "overlay_row height y img
      = setitem_row_float img y
          (\<lambda>x k. real_of_int (uint (pix img (nat y) x k)) * (1 - a) + 128 * a)"
    unfolding a_def overlay_row_def by (simp add: py_truediv_def h i Let_def)
  have f: "\<And>x k. fits_uint8 (py_int (real_of_int (uint (pix img (nat y) x k)) * (1 - a) + 128 * a))"
    by (rule overlay_value_bounds [OF ab])
  have i': "py_index (nat height) y = Inr (nat y)"
    using assms(2,3) by (intro py_index_ok) simp_all
  show ?thesis unfolding eq using assms(1) f
    by (simp add: setitem_row_float_def i' has_shape_def)
qed

lemma overlay_ok:
  assumes "has_shape height width img"
  shows "\<exists>img'. for_loop (py_range 0 height) (overlay_row height) img = Inr img'
           \<and> has_shape height width img' \<and> wrapped img' = wrapped img"
proof -
  let ?I = "\<lambda>s. has_shape height width s \<and> wrapped s = wrapped img"
  have "post (\<lambda>_. False) ?I (for_loop (py_range 0 height) (overlay_row height) img)"
  proof (rule post_for_loop [where I = ?I])
    show "?I img" using assms by simp
    fix y s assume "y \<in> set (py_range 0 height)" "?I s"
    then show "post (\<lambda>_. False) ?I (overlay_row height y s)"
      using overlay_row_ok [of height width s y] by (auto simp: set_py_range)
  qed
  then show ?thesis using post_returns by fastforce
qed

lemma add_noise_wrapped:
  "add_noise low high height width img g = Inr (img', g') \<Longrightarrow> wrapped img' = wrapped img"
  by (auto simp: add_noise_def randint_3d_def clip_sum_def np_clip_fits ebind_def
      split: if_splits sum.splits prod.splits)

lemma uint8_range: "0 \<le> uint (p :: 8 word) \<and> uint p \<le> 255"
  using uint_lt2p [of p] by simp

lemma landscape_returned_clean:
  assumes "create_landscape_image (height, width) g = Inr (img, g')"
  shows "has_shape height width img \<and> \<not> wrapped img"
proof -
  have nn: "0 \<le> height" "0 \<le> width"
    using assms create_landscape_image_neg [of height width g] by (auto simp: not_less [symmetric])
  show ?thesis
  proof (cases "width = 3")
    case True
    then show ?thesis using create_landscape_image_width3 [OF nn(1), of g] assms by auto
  next
    case False
    then have "height = 0"
      using create_landscape_image_fails [of height width g] nn assms by (cases "1 \<le> height") auto
    then show ?thesis using create_landscape_image_height0 [OF nn(2), of g] assms by auto
  qed
qed

lemma portrait_returned_clean:
  assumes "create_portrait_image (height, width) g = Inr (img, g')"
  shows "has_shape height width img \<and> \<not> wrapped img"
proof -
  have nn: "0 \<le> height" "0 \<le> width"
    using assms create_portrait_image_neg [of height width g] by (auto simp: not_less [symmetric])
  then show ?thesis using create_portrait_image_ok [OF nn, of g] assms by auto
qed

lemma architecture_returned_clean:
  assumes "create_architecture_image (height, width) g = Inr (img, g')"
  shows "has_shape height width img \<and> \<not> wrapped img"
proof -
  have nn: "0 \<le> height" "0 \<le> width"
    using assms create_architecture_image_neg [of height width g] by (auto simp: not_less [symmetric])
  have "\<not> (width < 8 \<or> height < 12)"
    using create_architecture_image_zero_step [OF nn, of g] assms by auto
  then have "12 \<le> height" "8 \<le> width" by simp_all
  then show ?thesis using create_architecture_image_ok [of height width g] assms by auto
qed

subsection \<open>The noise passes\<close>

lemma rng_drop_drop: "rng_drop a (rng_drop b g) = rng_drop (b + a) g"
  by (simp add: rng_drop_def ac_simps)

lemma rng_drop_const: "rng_drop n (\<lambda>i. c) = (\<lambda>i. c)"
  by (simp add: rng_drop_def)

lemma add_noise_eq:
  "0 \<le> height \<Longrightarrow> 0 \<le> width \<Longrightarrow> low < high \<Longrightarrow>
   add_noise low high height width img g
   = Inr (clip_sum img (texture_of low high width g), rng_drop (nat height * nat width * 3) g)"
  by (simp add: add_noise_def randint_3d_def texture_of_def noise_position_def)

lemma texture_bounds:
  "low < high \<Longrightarrow> low \<le> texture_of low high width g y x k \<and> texture_of low high width g y x k \<le> high - 1"
  using draw_range [of low high] by (simp add: texture_of_def)

lemma clip_sum_pix:
  "uint (pix (clip_sum img n) y x k) = np_clip (uint (pix img y x k) + n y x k) 0 255"
  by (simp add: clip_sum_def uint_to_uint8 np_clip_fits astype_int16_uint)

lemma noise_position_inj:
  assumes "x < nat width" "x' < nat width" "k < 3" "k' < 3"
    "noise_position width y x k = noise_position width y' x' k'"
  shows "y = y' \<and> x = x' \<and> k = k'"
proof -
  define a where "a = y * nat width + x"
  define b where "b = y' * nat width + x'"
  have e: "a * 3 + k = b * 3 + k'" using assms(5) by (simp add: noise_position_def a_def b_def)
  have "(a * 3 + k) mod 3 = k" "(b * 3 + k') mod 3 = k'" using assms(3,4) by simp_all
  then have k: "k = k'" using e by simp
  have "(a * 3 + k) div 3 = a" "(b * 3 + k') div 3 = b" using assms(3,4) by simp_all
  then have ab: "a = b" using e by simp
  have "a mod nat width = x" "b mod nat width = x'" using assms(1,2) by (simp_all add: a_def b_def)
  then have x: "x = x'" using ab by simp
  have "a div nat width = y" "b div nat width = y'" using assms(1,2) by (simp_all add: a_def b_def)
  then have "y = y'" using ab by simp
  with x k show ?thesis by simp
qed

lemma draw_uniform:
  assumes "low \<le> v" "v < high"
  shows "card {r. r < m * nat (high - low) \<and> draw low high r = v} = m"
proof -
  define n where "n = nat (high - low)"
  define u where "u = nat (v - low)"
  have n: "0 < n" and u: "u < n" using assms by (simp_all add: n_def u_def)
  have d: "draw low high r = v \<longleftrightarrow> r mod n = u" for r
  proof -
    have "int (r mod n) = int r mod (high - low)" using assms by (simp add: n_def zmod_int)
    then show ?thesis using assms by (auto simp: draw_def u_def)
  qed
  have "{r. r < m * n \<and> r mod n = u} = (\<lambda>q. q * n + u) ` {..<m}"
  proof (intro set_eqI iffI)
    fix r assume "r \<in> {r. r < m * n \<and> r mod n = u}"
    then have r: "r < m * n" "r mod n = u" by simp_all
    have "r div n < m" using r(1) n by (simp add: less_mult_imp_div_less)
    moreover have "r = (r div n) * n + u" using r(2) by (metis div_mult_mod_eq)
    ultimately show "r \<in> (\<lambda>q. q * n + u) ` {..<m}" by blast
  next
    fix r assume "r \<in> (\<lambda>q. q * n + u) ` {..<m}"
    then obtain q where q: "q < m" "r = q * n + u" by blast
    have "q * n + u < q * n + n" using u by simp
    also have "\<dots> = (q + 1) * n" by simp
    also have "\<dots> \<le> m * n" using q(1) by (intro mult_le_mono1) simp
    finally have "r < m * n" using q(2) by simp
    moreover have "r mod n = u" using q(2) u by simp
    ultimately show "r \<in> {r. r < m * n \<and> r mod n = u}" by simp
  qed
  moreover have "inj_on (\<lambda>q. q * n + u) {..<m}" using n by (auto simp: inj_on_def)
  ultimately have "card {r. r < m * n \<and> r mod n = u} = m" by (simp add: card_image)
  then show ?thesis by (simp add: d n_def)
qed

lemma create_landscape_image_split:
  "create_landscape_image (height, width) g
   = ebind (landscape_before_texture (height, width) g)
       (\<lambda>(img, g2). add_noise (- 10) 10 height width img g2)"
  by (simp add: create_landscape_image_def landscape_before_texture_def ebind_def
      split: sum.splits prod.splits)

lemma create_architecture_image_split:
  "create_architecture_image (height, width) g
   = ebind (architecture_before_noise (height, width) g)
       (\<lambda>(img, g2). add_noise (- 8) 8 height width img g2)"
  by (simp add: create_architecture_image_def architecture_before_noise_def ebind_def Let_def
      split: sum.splits prod.splits)

lemma create_portrait_image_split:
  "create_portrait_image (height, width) g
   = ebind (portrait_before_noise (height, width) g)
       (\<lambda>(img, face_color, g2). add_noise (- 15) 15 height width img g2)"
  by (simp add: create_portrait_image_def)

lemma np_full_Inr: "np_full height width v = Inr img \<Longrightarrow> 0 \<le> height \<and> 0 \<le> width"
  by (auto simp: np_full_def split: if_splits)

lemma for_loop_suffix:
  assumes "\<And>x img g1 img' g'. x \<in> set xs \<Longrightarrow> body x (img, g1) = Inr (img', g')
             \<Longrightarrow> \<exists>n. g' = rng_drop n g1"
    and "for_loop xs body (img, g) = Inr (img', g')"
  shows "\<exists>n. g' = rng_drop n g"
  using assms
proof (induction xs arbitrary: img g)
  case Nil
  then have "g' = rng_drop 0 g" by (simp add: rng_drop_def)
  then show ?case by blast
next
  case (Cons x xs)
  from Cons.prems(2) obtain img1 g1 where b: "body x (img, g) = Inr (img1, g1)"
    and r: "for_loop xs body (img1, g1) = Inr (img', g')"
    by (auto split: sum.splits)
  obtain n where n: "g1 = rng_drop n g" using Cons.prems(1) [OF _ b] by auto
  have "\<exists>m. g' = rng_drop m g1"
  proof (rule Cons.IH [OF _ r])
    fix y i h i' h' assume "y \<in> set xs" "body y (i, h) = Inr (i', h')"
    then show "\<exists>n. h' = rng_drop n h" using Cons.prems(1) [of y i h i' h'] by simp
  qed
  then obtain m where "g' = rng_drop m g1" by blast
  then have "g' = rng_drop (n + m) g" using n by (simp add: rng_drop_drop)
  then show ?case by blast
qed

lemma mountain_row_suffix:
  "mountain_row width y (img, g) = Inr (img', g') \<Longrightarrow> \<exists>n. g' = rng_drop n g"
  by (auto simp: mountain_row_def randint_1d_def ebind_def Let_def split: if_splits sum.splits)

lemma ground_row_suffix:
  "ground_row width y (img, g) = Inr (img', g') \<Longrightarrow> \<exists>n. g' = rng_drop n g"
  by (auto simp: ground_row_def randint_1d_def ebind_def Let_def split: if_splits sum.splits)

lemma stripe_suffix:
  "stripe width stripe_width i (img, g) = Inr (img', g') \<Longrightarrow> \<exists>n. g' = rng_drop n g"
  by (auto simp: stripe_def randint_def ebind_def Let_def split: if_splits sum.splits)

lemma window_suffix:
  "window height width stripe_width floor_spacing building floor_y (img, g) = Inr (img', g')
   \<Longrightarrow> \<exists>n. g' = rng_drop n g"
proof (cases "window_drawn height width (window_rect stripe_width floor_spacing building floor_y)")
  case False
  assume "window height width stripe_width floor_spacing building floor_y (img, g) = Inr (img', g')"
  then have "g' = rng_drop 0 g" using False
    by (auto simp: window_def rng_drop_def split: prod.splits)
  then show ?thesis by blast
next
  case True
  assume "window height width stripe_width floor_spacing building floor_y (img, g) = Inr (img', g')"
  then have "g' = rng_drop 1 g" using True
    by (auto simp: window_def random_sample_def ebind_def Let_def split: prod.splits sum.splits if_splits)
  then show ?thesis by blast
qed

lemma building_windows_suffix:
  assumes "building_windows height width stripe_width floor_spacing building (img, g) = Inr (img', g')"
  shows "\<exists>n. g' = rng_drop n g"
proof -
  from assms obtain floors where
    "for_loop floors (window height width stripe_width floor_spacing building) (img, g) = Inr (img', g')"
    by (auto simp: building_windows_def ebind_def split: sum.splits)
  then show ?thesis by (rule for_loop_suffix [rotated]) (rule window_suffix)
qed

lemma landscape_before_texture_suffix:
  assumes "landscape_before_texture (height, width) g = Inr (img, g2)"
  shows "0 \<le> height \<and> 0 \<le> width \<and> (\<exists>n. g2 = rng_drop n g)"
proof -
  from assms obtain img0 img1 img2 g1 where
    f: "np_full height width 0 = Inr img0"
    and m: "landscape_mountains height width (img1, g) = Inr (img2, g1)"
    and gr: "landscape_ground height width (img2, g1) = Inr (img, g2)"
    by (auto simp: landscape_before_texture_def ebind_def split: sum.splits)
  obtain a where a: "g1 = rng_drop a g"
    using for_loop_suffix [OF _ m [unfolded landscape_mountains_def]] mountain_row_suffix by blast
  obtain b where b: "g2 = rng_drop b g1"
    using for_loop_suffix [OF _ gr [unfolded landscape_ground_def]] ground_row_suffix by blast
  have "g2 = rng_drop (a + b) g" using a b by (simp add: rng_drop_drop)
  then show ?thesis using np_full_Inr [OF f] by blast
qed

lemma architecture_before_noise_suffix:
  assumes "architecture_before_noise (height, width) g = Inr (img, g2)"
  shows "0 \<le> height \<and> 0 \<le> width \<and> (\<exists>n. g2 = rng_drop n g)"
proof -
  from assms obtain img0 stripes img1 g1 img2 buildings where
    f: "np_full height width 120 = Inr img0"
    and s: "for_loop stripes (stripe width (width div 8)) (img0, g) = Inr (img1, g1)"
    and w: "for_loop buildings (building_windows height width (width div 8) (height div 12))
              (img2, g1) = Inr (img, g2)"
    by (auto simp: architecture_before_noise_def ebind_def Let_def split: sum.splits prod.splits)
  obtain a where a: "g1 = rng_drop a g"
    using for_loop_suffix [OF _ s] stripe_suffix by blast
  obtain b where b: "g2 = rng_drop b g1"
    using for_loop_suffix [OF _ w] building_windows_suffix by blast
  have "g2 = rng_drop (a + b) g" using a b by (simp add: rng_drop_drop)
  then show ?thesis using np_full_Inr [OF f] by blast
qed

lemma portrait_before_noise_suffix:
  assumes "portrait_before_noise (height, width) g = Inr (img, face_color, g2)"
  shows "0 \<le> height \<and> 0 \<le> width \<and> (\<exists>n. g2 = rng_drop n g)"
proof -
  from assms obtain img0 where f: "np_full height width 0 = Inr img0" and "g2 = rng_drop 3 g"
    by (auto simp: portrait_before_noise_def portrait_face_def randint_1d_def ebind_def
        split: sum.splits if_splits)
  then show ?thesis using np_full_Inr [OF f] by blast
qed

lemma noise_pass_runI:
  assumes "0 \<le> height \<and> 0 \<le> width \<and> (\<exists>n. g2 = rng_drop n g)" "low < high"
    "r = add_noise low high height width img g2"
  shows "noise_pass_run low high height width g img g2 r"
  unfolding noise_pass_run_def
  using assms add_noise_eq [of height width low high img g2] texture_bounds [OF assms(2)] clip_sum_pix
  by simp

lemma texture_of_const:
  "low \<le> v \<Longrightarrow> v < high \<Longrightarrow> g2 = rng_drop n (\<lambda>i. nat (v - low)) \<Longrightarrow>
   texture_of low high width g2 y x k = v"
  by (simp add: texture_of_def rng_drop_const draw_attained)

lemma landscape_before_texture_returns:
  assumes "0 \<le> height"
  shows "\<exists>img g2. landscape_before_texture (height, 3) g = Inr (img, g2)"
proof -
  obtain img g' where "create_landscape_image (height, 3) g = Inr (img, g')"
    using create_landscape_image_width3 [OF assms, of g] by blast
  then show ?thesis unfolding create_landscape_image_split
    by (cases "landscape_before_texture (height, 3) g") auto
qed

lemma architecture_before_noise_returns:
  assumes "12 \<le> height" "8 \<le> width"
  shows "\<exists>img g2. architecture_before_noise (height, width) g = Inr (img, g2)"
proof -
  obtain img g' where "create_architecture_image (height, width) g = Inr (img, g')"
    using create_architecture_image_ok [OF assms, of g] by blast
  then show ?thesis unfolding create_architecture_image_split
    by (cases "architecture_before_noise (height, width) g") auto
qed

lemma portrait_before_noise_returns:
  assumes "0 \<le> height" "0 \<le> width"
  shows "\<exists>img face_color g2. portrait_before_noise (height, width) g = Inr (img, face_color, g2)"
proof -
  obtain img g' where "create_portrait_image (height, width) g = Inr (img, g')"
    using create_portrait_image_ok [OF assms, of g] by blast
  then show ?thesis unfolding create_portrait_image_split
    by (cases "portrait_before_noise (height, width) g") auto
qed

subsection \<open>The window loop\<close>

lemma window_effect:
  assumes "has_shape height width img" "0 \<le> height" "0 \<le> width"
    "window_rect stripe_width floor_spacing building floor_y = (wx, wy, ww, wh)"
    "0 \<le> wx \<and> 0 \<le> wy \<and> 0 \<le> ww \<and> 0 \<le> wh"
  shows "\<exists>img' g'.
           window height width stripe_width floor_spacing building floor_y (img, g) = Inr (img', g')
         \<and> has_shape height width img'
         \<and> (\<not> (wx + ww < width \<and> wy + wh < height) \<longrightarrow> img' = img \<and> g' = g)
         \<and> (wx + ww < width \<and> wy + wh < height \<longrightarrow>
              g' = rng_drop 1 g
              \<and> (\<exists>c. (c = [200, 220, 180] \<or> c = [40, 50, 60])
                   \<and> (\<forall>i j k. pix img' i j k =
                         (if wy \<le> int i \<and> int i < wy + wh \<and> wx \<le> int j \<and> int j < wx + ww
                             \<and> k < 3
                          then to_uint8 (c ! k) else pix img i j k))))"
proof (cases "wx + ww < width \<and> wy + wh < height")
  case False
  then have "\<not> window_drawn height width (wx, wy, ww, wh)" by (simp add: window_drawn_def)
  then have "window height width stripe_width floor_spacing building floor_y (img, g) = Inr (img, g)"
    using assms(4) by (simp add: window_def)
  with False assms(1) show ?thesis
    by (intro exI [of _ img] exI [of _ g]) blast
next
  case True
  then have dr: "window_drawn height width (wx, wy, ww, wh)" by (simp add: window_drawn_def)
  have d: "rows img = nat height" "cols img = nat width" "chans img = 3"
    using assms(1) by (simp_all add: has_shape_def)
  have sy: "\<And>i. in_slice (nat height) (Some wy, Some (wy + wh)) i = (wy \<le> int i \<and> int i < wy + wh)"
    using assms(5) True assms(2) by (intro slice_unclipped) simp_all
  have sx: "\<And>j. in_slice (nat width) (Some wx, Some (wx + ww)) j = (wx \<le> int j \<and> int j < wx + ww)"
    using assms(5) True assms(3) by (intro slice_unclipped) simp_all
  obtain r g' where rs: "random_sample g = (r, g')" by (cases "random_sample g")
  then have g': "g' = rng_drop 1 g" by (simp add: random_sample_def)
  define c where "c = (if r > 0.3 then [200, 220, 180] else [40, 50, 60::int])"
  have cc: "c = [200, 220, 180] \<or> c = [40, 50, 60]" by (simp add: c_def)
  have bc: "broadcast_color 3 c = Inr (\<lambda>k. c ! k)" by (simp add: c_def broadcast_color_def)
  define img' where "img' = img\<lparr>
         pix := (\<lambda>i j k. if in_slice (rows img) (Some wy, Some (wy + wh)) i
                              \<and> in_slice (cols img) (Some wx, Some (wx + ww)) j
                              \<and> k < chans img
                          then to_uint8 (c ! k) else pix img i j k),
         wrapped := (wrapped img \<or> (\<exists>k<chans img. \<not> fits_uint8 (c ! k)))\<rparr>"
  have sr: "setitem_region img (Some wy, Some (wy + wh)) (Some wx, Some (wx + ww)) c = Inr img'"
    by (simp add: setitem_region_def d bc img'_def)
  have w: "window height width stripe_width floor_spacing building floor_y (img, g) = Inr (img', g')"
    unfolding window_def using assms(4) dr rs sr [unfolded c_def]
    by (simp add: Let_def)
  have sh: "has_shape height width img'" using assms(1) by (simp add: img'_def has_shape_def)
  have px: "\<forall>i j k. pix img' i j k =
                         (if wy \<le> int i \<and> int i < wy + wh \<and> wx \<le> int j \<and> int j < wx + ww
                             \<and> k < 3
                          then to_uint8 (c ! k) else pix img i j k)"
    by (simp add: img'_def d sy sx)
  show ?thesis
    using w sh True g' cc px by (intro exI [of _ img'] exI [of _ g']) blast
qed


lemma window_step_invariant:
  assumes "0 \<le> height" "0 \<le> width"
    "py_range_step 0 width (width div 8 * 2) = Inr buildings" "building \<in> set buildings"
    "py_range_step (height div 12) (height - height div 12) (height div 12) = Inr floors"
    "floor_y \<in> set floors"
    "has_shape height width img"
    "\<forall>i j k. pix img i j k \<noteq> pix img0 i j k \<longrightarrow> in_drawn_window height width buildings floors i j k"
  shows "\<exists>img' g'.
           window height width (width div 8) (height div 12) building floor_y (img, g) = Inr (img', g')
         \<and> has_shape height width img'
         \<and> (\<forall>i j k. pix img' i j k \<noteq> pix img0 i j k \<longrightarrow>
               in_drawn_window height width buildings floors i j k)"
proof -
  obtain wx wy ww wh where
    r: "window_rect (width div 8) (height div 12) building floor_y = (wx, wy, ww, wh)"
    by (cases "window_rect (width div 8) (height div 12) building floor_y") auto
  have nn: "0 \<le> wx \<and> 0 \<le> wy \<and> 0 \<le> ww \<and> 0 \<le> wh"
    by (rule window_rect_bounds [OF assms(1-6) r])
  from window_effect [OF assms(7,1,2) r nn, of g] obtain img' g' where
    w: "window height width (width div 8) (height div 12) building floor_y (img, g) = Inr (img', g')"
    and sh: "has_shape height width img'"
    and no: "\<not> (wx + ww < width \<and> wy + wh < height) \<longrightarrow> img' = img \<and> g' = g"
    and yes: "wx + ww < width \<and> wy + wh < height \<longrightarrow>
              g' = rng_drop 1 g
              \<and> (\<exists>c. (c = [200, 220, 180] \<or> c = [40, 50, 60])
                   \<and> (\<forall>i j k. pix img' i j k =
                         (if wy \<le> int i \<and> int i < wy + wh \<and> wx \<le> int j \<and> int j < wx + ww
                             \<and> k < 3
                          then to_uint8 (c ! k) else pix img i j k)))"
    by blast
  have "in_drawn_window height width buildings floors i j k"
    if ch: "pix img' i j k \<noteq> pix img0 i j k" for i j k
  proof (cases "pix img' i j k = pix img i j k")
    case True
    then show ?thesis using ch assms(8) by simp
  next
    case False
    then have g: "wx + ww < width \<and> wy + wh < height" using no by auto
    then have "wy \<le> int i \<and> int i < wy + wh \<and> wx \<le> int j \<and> int j < wx + ww \<and> k < 3"
      using yes False by (auto split: if_splits)
    then show ?thesis
      unfolding in_drawn_window_def using assms(4,6) r nn g
      by (intro bexI [of _ building] bexI [of _ floor_y]) simp_all
  qed
  with w sh show ?thesis by blast
qed

lemma window_loop_effect:
  assumes "0 \<le> height" "0 \<le> width"
    "py_range_step 0 width (width div 8 * 2) = Inr buildings"
    "py_range_step (height div 12) (height - height div 12) (height div 12) = Inr floors"
    "has_shape height width img"
  shows "\<exists>img' g'.
           for_loop buildings (building_windows height width (width div 8) (height div 12)) (img, g)
             = Inr (img', g')
         \<and> has_shape height width img'
         \<and> (\<forall>i j k. pix img' i j k \<noteq> pix img i j k \<longrightarrow>
               in_drawn_window height width buildings floors i j k)"
proof -
  let ?I = "\<lambda>s :: canvas \<times> rng. has_shape height width (fst s)
              \<and> (\<forall>i j k. pix (fst s) i j k \<noteq> pix img i j k \<longrightarrow>
                    in_drawn_window height width buildings floors i j k)"
  have inner: "post (\<lambda>_. False) ?I (building_windows height width (width div 8) (height div 12) b s)"
    if b: "b \<in> set buildings" and s: "?I s" for b s
  proof -
    have "post (\<lambda>_. False) ?I
            (for_loop floors (window height width (width div 8) (height div 12) b) s)"
    proof (rule post_for_loop [where I = ?I])
      show "?I s" by fact
      fix f t assume f: "f \<in> set floors" and t: "?I t"
      obtain ti tg where tt: "t = (ti, tg)" by (cases t)
      from window_step_invariant [OF assms(1,2,3) b assms(4) f, of ti img tg] t tt
      show "post (\<lambda>_. False) ?I (window height width (width div 8) (height div 12) b f t)"
        by auto
    qed
    then show ?thesis by (simp add: building_windows_def assms(4))
  qed
  have "post (\<lambda>_. False) ?I
          (for_loop buildings (building_windows height width (width div 8) (height div 12)) (img, g))"
    by (rule post_for_loop [where I = ?I]) (use assms(5) inner in auto)
  then show ?thesis using post_returns by fastforce
qed

lemma range_68: "py_range_step 0 68 (68 div 8 * 2) = Inr (map (\<lambda>i. 0 + int i * 16) [0..<5])"
  by (simp add: py_range_step_def)
lemma mem_68: "64 \<in> set (map (\<lambda>i. 0 + int i * 16) [0..<5])"
  by (simp add: image_iff)
lemma mem_24_first: "2 \<in> set (map (\<lambda>i. 2 + int i * 2) [0..<10])"
  by (simp add: image_iff)

lemma portrait_noise_never_adds_15:
  "\<not> (\<exists>g img face_color g2 img' g'.
         portrait_before_noise (1, 1) g = Inr (img, face_color, g2)
       \<and> create_portrait_image (1, 1) g = Inr (img', g')
       \<and> uint (pix img' 0 0 0) = uint (pix img 0 0 0) + 15)"
proof
  assume "\<exists>g img face_color g2 img' g'.
         portrait_before_noise (1, 1) g = Inr (img, face_color, g2)
       \<and> create_portrait_image (1, 1) g = Inr (img', g')
       \<and> uint (pix img' 0 0 0) = uint (pix img 0 0 0) + 15"
  then obtain g img face_color g2 img' g' where
    b: "portrait_before_noise (1, 1) g = Inr (img, face_color, g2)"
    and c: "create_portrait_image (1, 1) g = Inr (img', g')"
    and e: "uint (pix img' 0 0 0) = uint (pix img 0 0 0) + 15"
    by blast
  have "create_portrait_image (1, 1) g = add_noise (- 15) 15 1 1 img g2"
    by (simp add: create_portrait_image_split b)
  also have "\<dots> = Inr (clip_sum img (texture_of (- 15) 15 1 g2), rng_drop (nat 1 * nat 1 * 3) g2)"
    by (rule add_noise_eq) simp_all
  finally have i: "img' = clip_sum img (texture_of (- 15) 15 1 g2)" using c by simp
  define n where "n = texture_of (- 15) 15 1 g2 0 0 0"
  define p where "p = uint (pix img 0 0 0)"
  have n: "n \<le> 14" using texture_bounds [of "- 15" 15 1 g2 0 0 0] by (simp add: n_def)
  have p: "0 \<le> p" by (simp add: p_def)
  have "uint (pix img' 0 0 0) = np_clip (p + n) 0 255"
    unfolding i clip_sum_pix by (simp add: p_def n_def)
  then have "np_clip (p + n) 0 255 = p + 15" using e by (simp add: p_def)
  then show False using n p by (simp add: np_clip_def min_def max_def split: if_splits)
qed

section \<open>The claims\<close>

text \<open>
  C8.  The claim: in the Abstract composer each of the 15 shape iterations draws a circle
  or a rectangle in a randomly chosen palette colour.  What the code does: the body of
  the shape loop, run on any image and any state of the random generator, raises
  \<open>ValueError\<close> at \<open>np.random.choice(colors)\<close>, since \<open>colors\<close> is a list of lists, an
  array of two dimensions.  No iteration draws a shape.
\<close>

theorem abstract_shape_raises:
  "abstract_shape height width (img, g) = Inl (ValueError not_1_dimensional)"
proof -
  obtain v where "random_choice shapes g = Inr (v, rng_drop 1 g)" using choice_shapes by blast
  then show ?thesis by (simp add: abstract_shape_def choice_colors)
qed

text \<open>
  C6, as stated, fails: the noise is drawn by \<open>np.random.randint(low, high, ...)\<close>, whose
  upper bound is exclusive.  The Portrait generator returns at size \<open>(1, 1)\<close>, and in no
  run of it there, whatever the state of the random generator, is the first channel of
  the returned pixel the value it had before the noise pass plus 15.
\<close>

theorem noise_upper_bound_never_drawn:
  "(\<exists>img face_color g2 img' g'.
       portrait_before_noise (1, 1) (\<lambda>i. i) = Inr (img, face_color, g2)
     \<and> create_portrait_image (1, 1) (\<lambda>i. i) = Inr (img', g'))
   \<and> \<not> (\<exists>g img face_color g2 img' g'.
         portrait_before_noise (1, 1) g = Inr (img, face_color, g2)
       \<and> create_portrait_image (1, 1) g = Inr (img', g')
       \<and> uint (pix img' 0 0 0) = uint (pix img 0 0 0) + 15)"
proof
  obtain img face_color g2 where
    "portrait_before_noise (1, 1) (\<lambda>i. i) = Inr (img, face_color, g2)"
    using portrait_before_noise_returns [of 1 1 "\<lambda>i. i"] by auto
  moreover obtain img' g' where "create_portrait_image (1, 1) (\<lambda>i. i) = Inr (img', g')"
    using create_portrait_image_ok [of 1 1 "\<lambda>i. i"] by auto
  ultimately show "\<exists>img face_color g2 img' g'.
       portrait_before_noise (1, 1) (\<lambda>i. i) = Inr (img, face_color, g2)
     \<and> create_portrait_image (1, 1) (\<lambda>i. i) = Inr (img', g')"
    by blast
  show "\<not> (\<exists>g img face_color g2 img' g'.
         portrait_before_noise (1, 1) g = Inr (img, face_color, g2)
       \<and> create_portrait_image (1, 1) g = Inr (img', g')
       \<and> uint (pix img' 0 0 0) = uint (pix img 0 0 0) + 15)"
    by (rule portrait_noise_never_adds_15)
qed

text \<open>
  C6, amended.  Each of the Landscape, Portrait and Architecture generators is its part
  before the noise followed by the noise pass, with bounds \<open>(-10, 10)\<close>, \<open>(-15, 15)\<close> and
  \<open>(-8, 8)\<close>.  Whenever the part before the noise returns, the generator returns the
  image with the noise array added and every sum clipped to \<open>[0, 255]\<close>; the array is
  drawn from what is left of the generator's random stream, and each of its elements lies
  in the half-open range \<open>low \<le> n \<le> high - 1\<close>.  Every value of that range, \<open>low\<close> included,
  is drawn at every element in some run (for the sizes at which the generator reaches
  its noise pass), and \<open>high\<close> never is.

  Independent and uniform are properties of NumPy's generator, whose distribution the
  embedding does not model.  What they rest on in the code is proved: every channel of
  every pixel has a raw number of its own (\<open>noise_position\<close> is injective on the image), and
  \<open>randint\<close> maps any \<open>m\<close> full periods of raw numbers onto each value of the range exactly
  \<open>m\<close> times.
\<close>

theorem noise_pass_half_open:
  "create_landscape_image (height, width) g
     = ebind (landscape_before_texture (height, width) g)
         (\<lambda>(img, g2). add_noise (- 10) 10 height width img g2)
   \<and> create_portrait_image (height, width) g
     = ebind (portrait_before_noise (height, width) g)
         (\<lambda>(img, face_color, g2). add_noise (- 15) 15 height width img g2)
   \<and> create_architecture_image (height, width) g
     = ebind (architecture_before_noise (height, width) g)
         (\<lambda>(img, g2). add_noise (- 8) 8 height width img g2)
   \<and> (landscape_before_texture (height, width) g = Inr (img, g2) \<longrightarrow>
        noise_pass_run (- 10) 10 height width g img g2 (create_landscape_image (height, width) g))
   \<and> (portrait_before_noise (height, width) g = Inr (img, face_color, g2) \<longrightarrow>
        noise_pass_run (- 15) 15 height width g img g2 (create_portrait_image (height, width) g))
   \<and> (architecture_before_noise (height, width) g = Inr (img, g2) \<longrightarrow>
        noise_pass_run (- 8) 8 height width g img g2 (create_architecture_image (height, width) g))
   \<and> (- 10 \<le> v \<and> v \<le> 9 \<and> 0 \<le> height \<longrightarrow>
        (\<exists>img g2. landscape_before_texture (height, 3) (\<lambda>i. nat (v - (- 10))) = Inr (img, g2)
           \<and> (\<forall>y x k. texture_of (- 10) 10 3 g2 y x k = v)))
   \<and> (- 15 \<le> v \<and> v \<le> 14 \<and> 0 \<le> height \<and> 0 \<le> width \<longrightarrow>
        (\<exists>img face_color g2.
           portrait_before_noise (height, width) (\<lambda>i. nat (v - (- 15))) = Inr (img, face_color, g2)
           \<and> (\<forall>y x k. texture_of (- 15) 15 width g2 y x k = v)))
   \<and> (- 8 \<le> v \<and> v \<le> 7 \<and> 12 \<le> height \<and> 8 \<le> width \<longrightarrow>
        (\<exists>img g2. architecture_before_noise (height, width) (\<lambda>i. nat (v - (- 8))) = Inr (img, g2)
           \<and> (\<forall>y x k. texture_of (- 8) 8 width g2 y x k = v)))
   \<and> (x < nat width \<and> x' < nat width \<and> k < 3 \<and> k' < 3
        \<and> noise_position width y x k = noise_position width y' x' k'
        \<longrightarrow> y = y' \<and> x = x' \<and> k = k')
   \<and> (low \<le> v \<and> v < high \<longrightarrow>
        card {r. r < m * nat (high - low) \<and> draw low high r = v} = m)"
proof (intro conjI impI)
  show "create_landscape_image (height, width) g
     = ebind (landscape_before_texture (height, width) g)
         (\<lambda>(img, g2). add_noise (- 10) 10 height width img g2)"
    by (rule create_landscape_image_split)
  show "create_portrait_image (height, width) g
     = ebind (portrait_before_noise (height, width) g)
         (\<lambda>(img, face_color, g2). add_noise (- 15) 15 height width img g2)"
    by (rule create_portrait_image_split)
  show "create_architecture_image (height, width) g
     = ebind (architecture_before_noise (height, width) g)
         (\<lambda>(img, g2). add_noise (- 8) 8 height width img g2)"
    by (rule create_architecture_image_split)
next
  assume b: "landscape_before_texture (height, width) g = Inr (img, g2)"
  show "noise_pass_run (- 10) 10 height width g img g2 (create_landscape_image (height, width) g)"
    by (rule noise_pass_runI [OF landscape_before_texture_suffix [OF b]])
       (simp_all add: create_landscape_image_split b)
next
  assume b: "portrait_before_noise (height, width) g = Inr (img, face_color, g2)"
  show "noise_pass_run (- 15) 15 height width g img g2 (create_portrait_image (height, width) g)"
    by (rule noise_pass_runI [OF portrait_before_noise_suffix [OF b]])
       (simp_all add: create_portrait_image_split b)
next
  assume b: "architecture_before_noise (height, width) g = Inr (img, g2)"
  show "noise_pass_run (- 8) 8 height width g img g2 (create_architecture_image (height, width) g)"
    by (rule noise_pass_runI [OF architecture_before_noise_suffix [OF b]])
       (simp_all add: create_architecture_image_split b)
next
  assume a: "- 10 \<le> v \<and> v \<le> 9 \<and> 0 \<le> height"
  then obtain img g2 where
    b: "landscape_before_texture (height, 3) (\<lambda>i. nat (v - (- 10))) = Inr (img, g2)"
    using landscape_before_texture_returns [of height] by blast
  obtain n where "g2 = rng_drop n (\<lambda>i. nat (v - (- 10)))"
    using landscape_before_texture_suffix [OF b] by blast
  then have "\<forall>y x k. texture_of (- 10) 10 3 g2 y x k = v"
    using a texture_of_const [of "- 10" v 10 g2 n 3] by simp
  with b show "\<exists>img g2. landscape_before_texture (height, 3) (\<lambda>i. nat (v - (- 10))) = Inr (img, g2)
           \<and> (\<forall>y x k. texture_of (- 10) 10 3 g2 y x k = v)" by blast
next
  assume a: "- 15 \<le> v \<and> v \<le> 14 \<and> 0 \<le> height \<and> 0 \<le> width"
  then obtain img face_color g2 where
    b: "portrait_before_noise (height, width) (\<lambda>i. nat (v - (- 15))) = Inr (img, face_color, g2)"
    using portrait_before_noise_returns [of height width] by blast
  obtain n where "g2 = rng_drop n (\<lambda>i. nat (v - (- 15)))"
    using portrait_before_noise_suffix [OF b] by blast
  then have "\<forall>y x k. texture_of (- 15) 15 width g2 y x k = v"
    using a texture_of_const [of "- 15" v 15 g2 n width] by simp
  with b show "\<exists>img face_color g2.
           portrait_before_noise (height, width) (\<lambda>i. nat (v - (- 15))) = Inr (img, face_color, g2)
           \<and> (\<forall>y x k. texture_of (- 15) 15 width g2 y x k = v)" by blast
next
  assume a: "- 8 \<le> v \<and> v \<le> 7 \<and> 12 \<le> height \<and> 8 \<le> width"
  then obtain img g2 where
    b: "architecture_before_noise (height, width) (\<lambda>i. nat (v - (- 8))) = Inr (img, g2)"
    using architecture_before_noise_returns [of height width] by blast
  obtain n where "g2 = rng_drop n (\<lambda>i. nat (v - (- 8)))"
    using architecture_before_noise_suffix [OF b] by blast
  then have "\<forall>y x k. texture_of (- 8) 8 width g2 y x k = v"
    using a texture_of_const [of "- 8" v 8 g2 n width] by simp
  with b show "\<exists>img g2. architecture_before_noise (height, width) (\<lambda>i. nat (v - (- 8))) = Inr (img, g2)
           \<and> (\<forall>y x k. texture_of (- 8) 8 width g2 y x k = v)" by blast
next
  assume a: "x < nat width \<and> x' < nat width \<and> k < 3 \<and> k' < 3
        \<and> noise_position width y x k = noise_position width y' x' k'"
  then have r: "y = y' \<and> x = x' \<and> k = k'" using noise_position_inj [of x width x' k k' y y'] by blast
  from r show "y = y'" by simp
  from r show "x = x'" by simp
  from r show "k = k'" by simp
next
  assume "low \<le> v \<and> v < high"
  then show "card {r. r < m * nat (high - low) \<and> draw low high r = v} = m"
    using draw_uniform [of low v high m] by blast
qed

theorem noise_pass_half_open_witness:
  "(\<exists>img g2. landscape_before_texture (12, 3) (\<lambda>i. i) = Inr (img, g2)
       \<and> noise_pass_run (- 10) 10 12 3 (\<lambda>i. i) img g2 (create_landscape_image (12, 3) (\<lambda>i. i)))
   \<and> (\<exists>img face_color g2. portrait_before_noise (4, 4) (\<lambda>i. i) = Inr (img, face_color, g2)
       \<and> noise_pass_run (- 15) 15 4 4 (\<lambda>i. i) img g2 (create_portrait_image (4, 4) (\<lambda>i. i)))
   \<and> (\<exists>img g2. architecture_before_noise (12, 8) (\<lambda>i. i) = Inr (img, g2)
       \<and> noise_pass_run (- 8) 8 12 8 (\<lambda>i. i) img g2 (create_architecture_image (12, 8) (\<lambda>i. i)))
   \<and> (\<exists>img g2. landscape_before_texture (12, 3) (\<lambda>i. nat (9 - (- 10))) = Inr (img, g2)
       \<and> (\<forall>y x k. texture_of (- 10) 10 3 g2 y x k = 9))
   \<and> (\<exists>img face_color g2.
         portrait_before_noise (4, 4) (\<lambda>i. nat (- 15 - (- 15))) = Inr (img, face_color, g2)
       \<and> (\<forall>y x k. texture_of (- 15) 15 4 g2 y x k = - 15))
   \<and> (\<exists>img g2. architecture_before_noise (12, 8) (\<lambda>i. nat (7 - (- 8))) = Inr (img, g2)
       \<and> (\<forall>y x k. texture_of (- 8) 8 8 g2 y x k = 7))
   \<and> noise_position 8 0 2 1 \<noteq> noise_position 8 0 1 1
   \<and> card {r. r < 5 * nat (10 - (- 10)) \<and> draw (- 10) 10 r = 9} = 5"
proof -
  obtain li lg where l: "landscape_before_texture (12, 3) (\<lambda>i. i) = Inr (li, lg)"
    using landscape_before_texture_returns [of 12 "\<lambda>i. i"] by auto
  from noise_pass_half_open [where height = 12 and width = 3 and g = "\<lambda>i. i" and img = li and ?g2.0 = lg] l
  have 1: "noise_pass_run (- 10) 10 12 3 (\<lambda>i. i) li lg (create_landscape_image (12, 3) (\<lambda>i. i))"
    by blast
  obtain pi' pf pg where p: "portrait_before_noise (4, 4) (\<lambda>i. i) = Inr (pi', pf, pg)"
    using portrait_before_noise_returns [of 4 4 "\<lambda>i. i"] by auto
  from noise_pass_half_open [where height = 4 and width = 4 and g = "\<lambda>i. i" and img = pi' and face_color = pf and ?g2.0 = pg] p
  have 2: "noise_pass_run (- 15) 15 4 4 (\<lambda>i. i) pi' pg (create_portrait_image (4, 4) (\<lambda>i. i))"
    by blast
  obtain ai ag where a: "architecture_before_noise (12, 8) (\<lambda>i. i) = Inr (ai, ag)"
    using architecture_before_noise_returns [of 12 8 "\<lambda>i. i"] by auto
  from noise_pass_half_open [where height = 12 and width = 8 and g = "\<lambda>i. i" and img = ai and ?g2.0 = ag] a
  have 3: "noise_pass_run (- 8) 8 12 8 (\<lambda>i. i) ai ag (create_architecture_image (12, 8) (\<lambda>i. i))"
    by blast
  have h9: "- 10 \<le> (9::int) \<and> (9::int) \<le> 9 \<and> (0::int) \<le> 12" by simp
  from noise_pass_half_open [where height = 12 and v = 9] h9
  have 4: "\<exists>img g2. landscape_before_texture (12, 3) (\<lambda>i. nat (9 - (- 10))) = Inr (img, g2)
       \<and> (\<forall>y x k. texture_of (- 10) 10 3 g2 y x k = 9)"
    by blast
  have h15: "- 15 \<le> (- 15::int) \<and> (- 15::int) \<le> 14 \<and> (0::int) \<le> 4 \<and> (0::int) \<le> 4" by simp
  from noise_pass_half_open [where height = 4 and width = 4 and v = "- 15"] h15
  have 5: "\<exists>img face_color g2.
         portrait_before_noise (4, 4) (\<lambda>i. nat (- 15 - (- 15))) = Inr (img, face_color, g2)
       \<and> (\<forall>y x k. texture_of (- 15) 15 4 g2 y x k = - 15)"
    by blast
  have h7: "- 8 \<le> (7::int) \<and> (7::int) \<le> 7 \<and> (12::int) \<le> 12 \<and> (8::int) \<le> 8" by simp
  from noise_pass_half_open [where height = 12 and width = 8 and v = 7] h7
  have 6: "\<exists>img g2. architecture_before_noise (12, 8) (\<lambda>i. nat (7 - (- 8))) = Inr (img, g2)
       \<and> (\<forall>y x k. texture_of (- 8) 8 8 g2 y x k = 7)"
    by blast
  have 7: "noise_position 8 0 2 1 \<noteq> noise_position 8 0 1 1"
  proof
    assume e: "noise_position 8 0 2 1 = noise_position 8 0 1 1"
    have "(2::nat) < nat 8 \<and> (1::nat) < nat 8 \<and> (1::nat) < 3 \<and> (1::nat) < 3
          \<and> noise_position 8 0 2 1 = noise_position 8 0 1 1"
      using e by simp
    with noise_pass_half_open [where width = 8 and x = 2 and x' = 1 and k = 1 and k' = 1 and y = 0 and y' = 0] have "(2::nat) = 1" by blast
    then show False by simp
  qed
  have hu: "- 10 \<le> (9::int) \<and> (9::int) < 10" by simp
  from noise_pass_half_open [where v = 9 and low = "- 10" and high = 10 and m = 5] hu
  have 8: "card {r. r < 5 * nat (10 - (- 10)) \<and> draw (- 10) 10 r = 9} = 5" by blast
  from l 1 p 2 a 3 4 5 6 7 8 show ?thesis by blast
qed

text \<open>
  C5.  For every size with non-negative extents the Portrait generator reaches its noise
  pass.  The image it holds there (after the face assignment, before the noise) has the
  face colour, the triple of three draws from \<open>180 \<le> n < 220\<close>, on the three channels of
  every pixel whose squared distance to \<open>(width // 2, height // 2)\<close> is at most the
  square of \<open>min(width, height) // 4\<close>; the generator's result is the noise pass on that
  image.
\<close>

theorem face_pixels_hold_face_color:
  assumes "0 \<le> height" "0 \<le> width"
  shows "\<exists>img face_color g'.
           portrait_before_noise (height, width) g = Inr (img, face_color, g')
         \<and> create_portrait_image (height, width) g = add_noise (- 15) 15 height width img g'
         \<and> has_shape height width img
         \<and> face_color = [draw 180 220 (g 0), draw 180 220 (g 1), draw 180 220 (g 2)]
         \<and> (\<forall>y x k. y < rows img \<and> x < cols img \<and> k < 3
                \<and> (int x - width div 2)\<^sup>2 + (int y - height div 2)\<^sup>2 \<le> (min width height div 4)\<^sup>2
              \<longrightarrow> uint (pix img y x k) = face_color ! k)"
proof -
  obtain img0 where i0: "np_full height width 0 = Inr img0" "has_shape height width img0"
    using np_full_ok [OF assms, of 0] by (auto simp: fits_uint8_def)
  obtain img1 where i1: "portrait_background height width img0 = Inr img1" "has_shape height width img1"
    using portrait_background_ok [OF i0(2)] by blast
  let ?fc = "[draw 180 220 (g 0), draw 180 220 (g 1), draw 180 220 (g 2)]"
  have m: "mask_rows (face_mask height width) = nat height" "mask_cols (face_mask height width) = nat width"
    "covers (face_mask height width) = (\<lambda>y x. (int x - width div 2)\<^sup>2 + (int y - height div 2)\<^sup>2 \<le> (min width height div 4)\<^sup>2)"
    by (simp_all add: face_mask_def circle_mask_def Let_def)
  obtain img2 where i2: "setitem_mask img1 (face_mask height width) ?fc = Inr img2"
     "has_shape height width img2"
     "\<forall>i j k. pix img2 i j k =
                 (if i < rows img1 \<and> j < cols img1 \<and> covers (face_mask height width) i j \<and> k < 3
                  then to_uint8 (?fc ! k) else pix img1 i j k)"
    using setitem_mask_ok [OF i1(2) m(1,2)] by blast
  have pb: "portrait_before_noise (height, width) g = Inr (img2, ?fc, rng_drop 3 g)"
    by (simp add: portrait_before_noise_def i0 i1 portrait_face_def randint_1d_three i2 del: One_nat_def)
  have fits: "\<And>k. k < 3 \<Longrightarrow> fits_uint8 (?fc ! k)"
    by (rule nth3) (simp_all add: face_color_fits)
  have sh: "rows img2 = rows img1" "cols img2 = cols img1"
    using i1(2) i2(2) by (simp_all add: has_shape_def)
  have px: "\<forall>y x k. y < rows img2 \<and> x < cols img2 \<and> k < 3
                \<and> (int x - width div 2)\<^sup>2 + (int y - height div 2)\<^sup>2 \<le> (min width height div 4)\<^sup>2
              \<longrightarrow> uint (pix img2 y x k) = ?fc ! k"
    using i2(3) fits by (simp add: m(3) sh uint_to_uint8)
  show ?thesis
    apply (intro exI [of _ img2] exI [of _ ?fc] exI [of _ "rng_drop 3 g"])
    using pb i2(2) px by (simp add: create_portrait_image_def)
qed

theorem face_pixels_hold_face_color_witness:
  "\<exists>img face_color g'.
     portrait_before_noise (4, 4) (\<lambda>i. i) = Inr (img, face_color, g')
     \<and> face_color = [180, 181, 182]
     \<and> uint (pix img 2 2 0) = 180 \<and> uint (pix img 2 2 1) = 181 \<and> uint (pix img 2 2 2) = 182"
proof -
  have a: "(0::int) \<le> 4" by simp
  from face_pixels_hold_face_color [OF a a, of "\<lambda>i. i"]
  obtain img face_color g' where
    r: "portrait_before_noise (4, 4) (\<lambda>i. i) = Inr (img, face_color, g')"
    and sh: "has_shape 4 4 img"
    and fc: "face_color = [draw 180 220 0, draw 180 220 1, draw 180 220 2]"
    and px: "\<forall>y x k. y < rows img \<and> x < cols img \<and> k < 3
                \<and> (int x - 4 div 2)\<^sup>2 + (int y - 4 div 2)\<^sup>2 \<le> (min 4 4 div 4)\<^sup>2
              \<longrightarrow> uint (pix img y x k) = face_color ! k"
    by blast
  have fc': "face_color = [180, 181, 182]" using fc by (simp add: draw_def)
  have d: "rows img = 4" "cols img = 4" using sh by (simp_all add: has_shape_def)
  have "uint (pix img 2 2 0) = face_color ! 0" "uint (pix img 2 2 1) = face_color ! 1"
       "uint (pix img 2 2 2) = face_color ! 2"
    using px d by simp_all
  then show ?thesis using r fc' by simp
qed

text \<open>
  C7.  In the Architecture generator, with the buildings of
  \<open>range(0, width, stripe_width * 2)\<close> and the floors of
  \<open>range(floor_spacing, height - floor_spacing, floor_spacing)\<close>, the loop of lines 91 to
  105, run on any image of the generator's size, returns, and every pixel it has changed
  lies in the rectangle of a window with a non-negative origin and with
  \<open>window_x + window_w < width\<close> and \<open>window_y + window_h < height\<close>.  For one building and
  floor, the loop body leaves the image and the random generator untouched when that
  test fails, and when it holds the body draws one random number and overwrites exactly
  the window's rectangle, which then lies inside the image unclipped.
\<close>

theorem window_inside_canvas:
  assumes "0 \<le> height" "0 \<le> width"
    "py_range_step 0 width (width div 8 * 2) = Inr buildings"
    "py_range_step (height div 12) (height - height div 12) (height div 12) = Inr floors"
    "has_shape height width img"
  shows "(\<exists>img' g'.
            for_loop buildings (building_windows height width (width div 8) (height div 12))
              (img, g) = Inr (img', g')
          \<and> has_shape height width img'
          \<and> (\<forall>i j k. pix img' i j k \<noteq> pix img i j k \<longrightarrow>
                in_drawn_window height width buildings floors i j k))
       \<and> (building \<in> set buildings \<and> floor_y \<in> set floors
            \<and> window_rect (width div 8) (height div 12) building floor_y = (wx, wy, ww, wh)
          \<longrightarrow>
            (\<exists>img' g'.
               window height width (width div 8) (height div 12) building floor_y (img, g)
                 = Inr (img', g')
             \<and> has_shape height width img'
             \<and> (\<not> (wx + ww < width \<and> wy + wh < height) \<longrightarrow> img' = img \<and> g' = g)
             \<and> (wx + ww < width \<and> wy + wh < height \<longrightarrow>
                  0 \<le> wx \<and> 0 \<le> wy \<and> 0 \<le> ww \<and> 0 \<le> wh \<and> g' = rng_drop 1 g
                  \<and> (\<exists>c. (c = [200, 220, 180] \<or> c = [40, 50, 60])
                       \<and> (\<forall>i j k. pix img' i j k =
                             (if wy \<le> int i \<and> int i < wy + wh \<and> wx \<le> int j
                                 \<and> int j < wx + ww \<and> k < 3
                              then to_uint8 (c ! k) else pix img i j k))))))"
proof (intro conjI impI)
  show "\<exists>img' g'.
            for_loop buildings (building_windows height width (width div 8) (height div 12))
              (img, g) = Inr (img', g')
          \<and> has_shape height width img'
          \<and> (\<forall>i j k. pix img' i j k \<noteq> pix img i j k \<longrightarrow>
                in_drawn_window height width buildings floors i j k)"
    by (rule window_loop_effect [OF assms])
next
  assume a: "building \<in> set buildings \<and> floor_y \<in> set floors
            \<and> window_rect (width div 8) (height div 12) building floor_y = (wx, wy, ww, wh)"
  then have r: "window_rect (width div 8) (height div 12) building floor_y = (wx, wy, ww, wh)"
    and b: "building \<in> set buildings" and f: "floor_y \<in> set floors" by simp_all
  have nn: "0 \<le> wx \<and> 0 \<le> wy \<and> 0 \<le> ww \<and> 0 \<le> wh"
    by (rule window_rect_bounds [OF assms(1,2,3) b assms(4) f r])
  from window_effect [OF assms(5,1,2) r nn, of g] nn
  show "\<exists>img' g'.
               window height width (width div 8) (height div 12) building floor_y (img, g)
                 = Inr (img', g')
             \<and> has_shape height width img'
             \<and> (\<not> (wx + ww < width \<and> wy + wh < height) \<longrightarrow> img' = img \<and> g' = g)
             \<and> (wx + ww < width \<and> wy + wh < height \<longrightarrow>
                  0 \<le> wx \<and> 0 \<le> wy \<and> 0 \<le> ww \<and> 0 \<le> wh \<and> g' = rng_drop 1 g
                  \<and> (\<exists>c. (c = [200, 220, 180] \<or> c = [40, 50, 60])
                       \<and> (\<forall>i j k. pix img' i j k =
                             (if wy \<le> int i \<and> int i < wy + wh \<and> wx \<le> int j
                                 \<and> int j < wx + ww \<and> k < 3
                              then to_uint8 (c ! k) else pix img i j k))))"
    by blast
qed

theorem window_inside_canvas_witness:
  "(\<exists>img' g'.
      window 24 16 (16 div 8) (24 div 12) 4 6
        (\<lparr>rows = 24, cols = 16, chans = 3, pix = (\<lambda>y x k. 120), wrapped = False\<rparr>, (\<lambda>i. i))
      = Inr (img', g')
      \<and> has_shape 24 16 img' \<and> g' = rng_drop 1 (\<lambda>i. i))
   \<and> window 24 68 (68 div 8) (24 div 12) 64 2
        (\<lparr>rows = 24, cols = 68, chans = 3, pix = (\<lambda>y x k. 120), wrapped = False\<rparr>, (\<lambda>i. i))
      = Inr (\<lparr>rows = 24, cols = 68, chans = 3, pix = (\<lambda>y x k. 120), wrapped = False\<rparr>, (\<lambda>i. i))
   \<and> (\<exists>img' g'.
         for_loop (map (\<lambda>i. 0 + int i * 16) [0..<5])
           (building_windows 24 68 (68 div 8) (24 div 12))
           (\<lparr>rows = 24, cols = 68, chans = 3, pix = (\<lambda>y x k. 120), wrapped = False\<rparr>, (\<lambda>i. i))
         = Inr (img', g')
       \<and> has_shape 24 68 img')"
proof -
  let ?a = "\<lparr>rows = 24, cols = 16, chans = 3, pix = (\<lambda>y x k. 120), wrapped = False\<rparr>"
  let ?b = "\<lparr>rows = 24, cols = 68, chans = 3, pix = (\<lambda>y x k. 120), wrapped = False\<rparr>"
  have n: "(0::int) \<le> 24" "(0::int) \<le> 16" "(0::int) \<le> 68" by simp_all
  have sa: "has_shape 24 16 ?a" and sb: "has_shape 24 68 ?b" by (simp_all add: has_shape_def)
  have ra: "window_rect (16 div 8) (24 div 12) 4 6 = (4, 6, 1, 1)"
    and rb: "window_rect (68 div 8) (24 div 12) 64 2 = (66, 2, 4, 1)"
    by (simp_all add: window_rect_def)
  note ta = window_inside_canvas [OF n(1) n(2) range_16 range_24 sa,
      where building = 4 and floor_y = 6 and wx = 4 and wy = 6 and ww = 1 and wh = 1
        and g = "\<lambda>i. i"]
  note tb = window_inside_canvas [OF n(1) n(3) range_68 range_24 sb,
      where building = 64 and floor_y = 2 and wx = 66 and wy = 2 and ww = 4 and wh = 1
        and g = "\<lambda>i. i"]
  have ha: "4 \<in> set (map (\<lambda>i. 0 + int i * 4) [0..<4]) \<and> 6 \<in> set (map (\<lambda>i. 2 + int i * 2) [0..<10])
            \<and> window_rect (16 div 8) (24 div 12) 4 6 = (4, 6, 1, 1)"
    using mem_16 mem_24 ra by blast
  have hb: "64 \<in> set (map (\<lambda>i. 0 + int i * 16) [0..<5]) \<and> 2 \<in> set (map (\<lambda>i. 2 + int i * 2) [0..<10])
            \<and> window_rect (68 div 8) (24 div 12) 64 2 = (66, 2, 4, 1)"
    using mem_68 mem_24_first rb by blast
  have ga: "(4::int) + 1 < 16 \<and> (6::int) + 1 < 24" by simp
  have gb: "\<not> ((66::int) + 4 < 68 \<and> (2::int) + 1 < 24)" by simp
  from ta [THEN conjunct2] ha
  have "\<exists>img' g'.
               window 24 16 (16 div 8) (24 div 12) 4 6 (?a, (\<lambda>i. i)) = Inr (img', g')
             \<and> has_shape 24 16 img'
             \<and> (\<not> ((4::int) + 1 < 16 \<and> (6::int) + 1 < 24) \<longrightarrow> img' = ?a \<and> g' = (\<lambda>i. i))
             \<and> ((4::int) + 1 < 16 \<and> (6::int) + 1 < 24 \<longrightarrow>
                  (0::int) \<le> 4 \<and> (0::int) \<le> 6 \<and> (0::int) \<le> 1 \<and> (0::int) \<le> 1
                  \<and> g' = rng_drop 1 (\<lambda>i. i)
                  \<and> (\<exists>c. (c = [200, 220, 180] \<or> c = [40, 50, 60])
                       \<and> (\<forall>i j k. pix img' i j k =
                             (if 6 \<le> int i \<and> int i < 6 + 1 \<and> 4 \<le> int j
                                 \<and> int j < 4 + 1 \<and> k < 3
                              then to_uint8 (c ! k) else pix ?a i j k))))"
    by (rule mp)
  then obtain ia ka where
    "window 24 16 (16 div 8) (24 div 12) 4 6 (?a, (\<lambda>i. i)) = Inr (ia, ka)"
    "has_shape 24 16 ia"
    "(4::int) + 1 < 16 \<and> (6::int) + 1 < 24 \<longrightarrow>
                  (0::int) \<le> 4 \<and> (0::int) \<le> 6 \<and> (0::int) \<le> 1 \<and> (0::int) \<le> 1
                  \<and> ka = rng_drop 1 (\<lambda>i. i)
                  \<and> (\<exists>c. (c = [200, 220, 180] \<or> c = [40, 50, 60])
                       \<and> (\<forall>i j k. pix ia i j k =
                             (if 6 \<le> int i \<and> int i < 6 + 1 \<and> 4 \<le> int j
                                 \<and> int j < 4 + 1 \<and> k < 3
                              then to_uint8 (c ! k) else pix ?a i j k)))"
    by (elim exE conjE)
  with ga have 1: "\<exists>img' g'. window 24 16 (16 div 8) (24 div 12) 4 6 (?a, (\<lambda>i. i)) = Inr (img', g')
      \<and> has_shape 24 16 img' \<and> g' = rng_drop 1 (\<lambda>i. i)"
    by (intro exI [of _ ia] exI [of _ ka]) simp
  from tb [THEN conjunct2] hb
  have "\<exists>img' g'.
               window 24 68 (68 div 8) (24 div 12) 64 2 (?b, (\<lambda>i. i)) = Inr (img', g')
             \<and> has_shape 24 68 img'
             \<and> (\<not> ((66::int) + 4 < 68 \<and> (2::int) + 1 < 24) \<longrightarrow> img' = ?b \<and> g' = (\<lambda>i. i))
             \<and> ((66::int) + 4 < 68 \<and> (2::int) + 1 < 24 \<longrightarrow>
                  (0::int) \<le> 66 \<and> (0::int) \<le> 2 \<and> (0::int) \<le> 4 \<and> (0::int) \<le> 1
                  \<and> g' = rng_drop 1 (\<lambda>i. i)
                  \<and> (\<exists>c. (c = [200, 220, 180] \<or> c = [40, 50, 60])
                       \<and> (\<forall>i j k. pix img' i j k =
                             (if 2 \<le> int i \<and> int i < 2 + 1 \<and> 66 \<le> int j
                                 \<and> int j < 66 + 4 \<and> k < 3
                              then to_uint8 (c ! k) else pix ?b i j k))))"
    by (rule mp)
  then obtain ib kb where
    wb: "window 24 68 (68 div 8) (24 div 12) 64 2 (?b, (\<lambda>i. i)) = Inr (ib, kb)"
    and nb: "\<not> ((66::int) + 4 < 68 \<and> (2::int) + 1 < 24) \<longrightarrow> ib = ?b \<and> kb = (\<lambda>i. i)"
    by (elim exE conjE)
  from nb gb have "ib = ?b" "kb = (\<lambda>i. i)" by simp_all
  with wb have 2: "window 24 68 (68 div 8) (24 div 12) 64 2 (?b, (\<lambda>i. i)) = Inr (?b, (\<lambda>i. i))"
    by simp
  from tb [THEN conjunct1]
  obtain ic kc where
    "for_loop (map (\<lambda>i. 0 + int i * 16) [0..<5])
           (building_windows 24 68 (68 div 8) (24 div 12)) (?b, (\<lambda>i. i)) = Inr (ic, kc)"
    "has_shape 24 68 ic"
    by (elim exE conjE)
  then have 3: "\<exists>img' g'. for_loop (map (\<lambda>i. 0 + int i * 16) [0..<5])
           (building_windows 24 68 (68 div 8) (24 div 12)) (?b, (\<lambda>i. i)) = Inr (img', g')
       \<and> has_shape 24 68 img'"
    by (intro exI [of _ ic] exI [of _ kc]) simp
  from 1 2 3 show ?thesis by (intro conjI)
qed

text \<open>
  C1.  The claim: every generator, called with its default size, returns an image of that
  size with three channels.  What the code does at the default sizes: the Landscape
  generator raises \<open>ValueError\<close> when it assigns the first mountain row (a list of three
  arrays of length 1280, of shape \<open>(3, 1280)\<close>, to a row of shape \<open>(1280, 3)\<close>), and the
  Nature and the Abstract generator raise \<open>ValueError\<close> at \<open>np.random.choice\<close> of a list
  of colour triples in their first iteration.
\<close>

theorem three_generators_raise_at_default_size:
  "create_landscape_image (720, 1280) g = Inl (ValueError could_not_broadcast)
   \<and> create_nature_image (1080, 1920) g = Inl (ValueError not_1_dimensional)
   \<and> create_abstract_image (600, 800) g = Inl (ValueError not_1_dimensional)"
  by (simp add: create_landscape_image_fails create_nature_image_raises_choice
      create_abstract_image_raises(2))

text \<open>
  C4.  The rows of the three bands partition the rows of the image for every height:
  \<open>sky_rows\<close>, \<open>mountain_rows\<close> and \<open>ground_rows\<close>, one after the other, are
  \<open>range(0, height)\<close>; at height 720 they are the rows from 0, from 240 and from 420.
  But at \<open>(720, 1280)\<close> no buffer is returned: after the sky band is filled, the
  mountain band raises \<open>ValueError\<close> at its first row.
\<close>

theorem landscape_bands_at_default_size:
  "sky_rows (int n) @ mountain_rows (int n) @ ground_rows (int n) = py_range 0 (int n)
   \<and> sky_rows 720 = py_range 0 240
   \<and> mountain_rows 720 = py_range 240 420
   \<and> ground_rows 720 = py_range 420 720
   \<and> (\<exists>img0 img1. np_full 720 1280 0 = Inr img0 \<and> landscape_sky 720 img0 = Inr img1
         \<and> landscape_mountains 720 1280 (img1, g) = Inl (ValueError could_not_broadcast))"
proof -
  have d: "0 \<le> int n div 3" "int n div 3 \<le> int n div 3 + int n div 4"
    "int n div 3 + int n div 4 \<le> int n" by simp_all
  have app: "py_range a b @ py_range b c = py_range a c" if "a \<le> b" "b \<le> c" for a b c
  proof (cases "a = b")
    case True
    then show ?thesis by (simp add: py_range_def)
  next
    case False
    then have "a \<le> b - 1" "b - 1 \<le> c - 1" using that by simp_all
    then have "[a..c - 1] = [a..b - 1] @ [b - 1 + 1..c - 1]" by (rule upto_split2)
    then show ?thesis by (simp add: py_range_def)
  qed
  have "py_range 0 (int n div 3) @ py_range (int n div 3) (int n div 3 + int n div 4)
          @ py_range (int n div 3 + int n div 4) (int n) = py_range 0 (int n)"
    using d by (simp add: app)
  then have p: "sky_rows (int n) @ mountain_rows (int n) @ ground_rows (int n) = py_range 0 (int n)"
    by (simp add: sky_rows_def mountain_rows_def ground_rows_def Let_def)
  have r: "sky_rows 720 = py_range 0 240" "mountain_rows 720 = py_range 240 420"
    "ground_rows 720 = py_range 420 720"
    by (simp_all add: sky_rows_def mountain_rows_def ground_rows_def)
  obtain img0 where i0: "np_full 720 1280 0 = Inr img0" "has_shape 720 1280 img0"
    using np_full_ok [of 720 1280 0] by (auto simp: fits_uint8_def)
  obtain img1 where i1: "landscape_sky 720 img0 = Inr img1" "has_shape 720 1280 img1"
    using landscape_sky_ok [OF i0(2)] by auto
  have "landscape_mountains 720 1280 (img1, g) = Inl (ValueError could_not_broadcast)"
    by (rule landscape_mountains_fails [OF i1(2)]) simp_all
  with p r i0 i1 show ?thesis by blast
qed

text \<open>
  C9.  The statements that draw a disc (a boolean mask of the image's own shape) and a
  rectangle (a pair of slices), run on an image of the generator's size with a colour
  triple and with any geometry, on or off the image, return without an exception and
  keep the image's shape.  The disc overwrites exactly the pixels of the image that lie
  in the disc.  The rectangle changes no pixel outside the image, and for the geometry
  the generators draw (non-negative origin and extents) it overwrites exactly the pixels
  of the image that lie in the rectangle.
\<close>

theorem draws_are_clipped:
  assumes "has_shape height width img" "0 \<le> height" "0 \<le> width" "length color = 3"
  shows "(\<exists>img'. draw_circle height width img cx cy r color = Inr img'
            \<and> has_shape height width img'
            \<and> (\<forall>i j k. pix img' i j k =
                  (if i < rows img \<and> j < cols img \<and> k < 3
                      \<and> (int j - cx)\<^sup>2 + (int i - cy)\<^sup>2 \<le> r\<^sup>2
                   then to_uint8 (color ! k) else pix img i j k)))
       \<and> (\<exists>img'. draw_rectangle height width img x1 y1 w h color = Inr img'
            \<and> has_shape height width img'
            \<and> (\<forall>i j k. pix img' i j k \<noteq> pix img i j k \<longrightarrow>
                  i < rows img \<and> j < cols img \<and> k < 3)
            \<and> (0 \<le> x1 \<and> 0 \<le> y1 \<and> 0 \<le> w \<and> 0 \<le> h \<longrightarrow>
                 (\<forall>i j k. pix img' i j k =
                    (if i < rows img \<and> j < cols img \<and> k < 3
                        \<and> y1 \<le> int i \<and> int i < y1 + h \<and> x1 \<le> int j \<and> int j < x1 + w
                     then to_uint8 (color ! k) else pix img i j k))))"
proof (intro conjI)
  have d: "rows img = nat height" "cols img = nat width" "chans img = 3"
    using assms(1) by (simp_all add: has_shape_def)
  show "\<exists>img'. draw_circle height width img cx cy r color = Inr img'
            \<and> has_shape height width img'
            \<and> (\<forall>i j k. pix img' i j k =
                  (if i < rows img \<and> j < cols img \<and> k < 3
                      \<and> (int j - cx)\<^sup>2 + (int i - cy)\<^sup>2 \<le> r\<^sup>2
                   then to_uint8 (color ! k) else pix img i j k))"
    using assms(1)
    by (auto simp: draw_circle_def setitem_mask_def circle_mask_def d broadcast_color_len3 [OF assms(4)]
        has_shape_def)
  define img' where "img' = img\<lparr>
         pix := (\<lambda>i j k. if in_slice (nat height) (Some y1, Some (min (y1 + h) height)) i
                              \<and> in_slice (nat width) (Some x1, Some (min (x1 + w) width)) j
                              \<and> k < 3
                          then to_uint8 (color ! k) else pix img i j k),
         wrapped := (wrapped img \<or> (\<exists>k<3. \<not> fits_uint8 (color ! k)))\<rparr>"
  have r: "draw_rectangle height width img x1 y1 w h color = Inr img'"
    by (simp add: draw_rectangle_def setitem_region_def Let_def d broadcast_color_len3 [OF assms(4)] img'_def)
  have sh: "has_shape height width img'" using assms(1) by (simp add: img'_def has_shape_def)
  have ib: "\<forall>i j k. pix img' i j k \<noteq> pix img i j k \<longrightarrow> i < rows img \<and> j < cols img \<and> k < 3"
    using in_slice_bounded by (auto simp: img'_def d)
  have ex: "0 \<le> x1 \<and> 0 \<le> y1 \<and> 0 \<le> w \<and> 0 \<le> h \<longrightarrow>
                 (\<forall>i j k. pix img' i j k =
                    (if i < rows img \<and> j < cols img \<and> k < 3
                        \<and> y1 \<le> int i \<and> int i < y1 + h \<and> x1 \<le> int j \<and> int j < x1 + w
                     then to_uint8 (color ! k) else pix img i j k))"
  proof (intro impI allI)
    fix i j k assume nn: "0 \<le> x1 \<and> 0 \<le> y1 \<and> 0 \<le> w \<and> 0 \<le> h"
    have sy: "in_slice (nat height) (Some y1, Some (min (y1 + h) height)) i
              = (i < nat height \<and> y1 \<le> int i \<and> int i < y1 + h)"
      using nn assms(2)
      by (auto simp: in_slice_def slice_start_def slice_stop_def slice_bound_def)
    have sx: "in_slice (nat width) (Some x1, Some (min (x1 + w) width)) j
              = (j < nat width \<and> x1 \<le> int j \<and> int j < x1 + w)"
      using nn assms(3)
      by (auto simp: in_slice_def slice_start_def slice_stop_def slice_bound_def)
    show "pix img' i j k =
                    (if i < rows img \<and> j < cols img \<and> k < 3
                        \<and> y1 \<le> int i \<and> int i < y1 + h \<and> x1 \<le> int j \<and> int j < x1 + w
                     then to_uint8 (color ! k) else pix img i j k)"
      by (auto simp: img'_def sy sx d)
  qed
  show "\<exists>img'. draw_rectangle height width img x1 y1 w h color = Inr img'
            \<and> has_shape height width img'
            \<and> (\<forall>i j k. pix img' i j k \<noteq> pix img i j k \<longrightarrow>
                  i < rows img \<and> j < cols img \<and> k < 3)
            \<and> (0 \<le> x1 \<and> 0 \<le> y1 \<and> 0 \<le> w \<and> 0 \<le> h \<longrightarrow>
                 (\<forall>i j k. pix img' i j k =
                    (if i < rows img \<and> j < cols img \<and> k < 3
                        \<and> y1 \<le> int i \<and> int i < y1 + h \<and> x1 \<le> int j \<and> int j < x1 + w
                     then to_uint8 (color ! k) else pix img i j k)))"
    using r sh ib ex by (intro exI [of _ img'] conjI)
qed


theorem draws_are_clipped_witness:
  "(\<exists>img'. draw_circle 4 4 \<lparr>rows = 4, cols = 4, chans = 3, pix = (\<lambda>y x k. 0), wrapped = False\<rparr>
             3 3 20 [255, 100, 100] = Inr img'
      \<and> has_shape 4 4 img' \<and> pix img' 0 0 0 = 255)
   \<and> (\<exists>img'. draw_rectangle 4 4 \<lparr>rows = 4, cols = 4, chans = 3, pix = (\<lambda>y x k. 0), wrapped = False\<rparr>
             2 2 30 30 [255, 100, 100] = Inr img'
      \<and> has_shape 4 4 img' \<and> pix img' 3 3 0 = 255 \<and> pix img' 1 1 0 = 0)"
proof -
  let ?img = "\<lparr>rows = 4, cols = 4, chans = 3, pix = (\<lambda>y x k. 0), wrapped = False\<rparr>"
  have sh: "has_shape 4 4 ?img" by (simp add: has_shape_def)
  have a: "(0::int) \<le> 4" by simp
  have len: "length [255, 100, 100 :: int] = 3" by simp
  note t = draws_are_clipped [OF sh a a len, of 3 3 20 2 2 30 30]
  from t [THEN conjunct1] obtain c where
    c: "draw_circle 4 4 ?img 3 3 20 [255, 100, 100] = Inr c" "has_shape 4 4 c"
      "\<forall>i j k. pix c i j k =
                  (if i < rows ?img \<and> j < cols ?img \<and> k < 3
                      \<and> (int j - 3)\<^sup>2 + (int i - 3)\<^sup>2 \<le> 20\<^sup>2
                   then to_uint8 ([255, 100, 100] ! k) else pix ?img i j k)"
    by blast
  have c0: "pix c 0 0 0 = 255" using c(3) by (simp add: to_uint8_def)
  from t [THEN conjunct2] obtain q where
    q: "draw_rectangle 4 4 ?img 2 2 30 30 [255, 100, 100] = Inr q" "has_shape 4 4 q"
      "(0::int) \<le> 2 \<and> (0::int) \<le> 2 \<and> (0::int) \<le> 30 \<and> (0::int) \<le> 30 \<longrightarrow>
         (\<forall>i j k. pix q i j k =
                    (if i < rows ?img \<and> j < cols ?img \<and> k < 3
                        \<and> 2 \<le> int i \<and> int i < 2 + 30 \<and> 2 \<le> int j \<and> int j < 2 + 30
                     then to_uint8 ([255, 100, 100] ! k) else pix ?img i j k))"
    by blast
  have q3: "pix q 3 3 0 = 255" "pix q 1 1 0 = 0" using q(3) by (simp_all add: to_uint8_def)
  show ?thesis using c(1,2) c0 q(1,2) q3 by blast
qed

text \<open>
  C2.  An image returned by any of the five generators has the size asked for, every
  channel value in \<open>[0, 255]\<close>, and \<open>wrapped\<close> false: no store of the run, intermediate or
  final, was handed a value outside \<open>[0, 255]\<close>, so nothing was narrowed modulo 256.
  Every additive noise pass leaves \<open>wrapped\<close> as it found it (it clips before it
  stores), and so does the final blend of the Abstract generator, which returns on every
  image of the generator's size.
\<close>

theorem returned_canvas_never_wrapped:
  "((create_landscape_image (height, width) g = Inr (img, g')
     \<or> create_portrait_image (height, width) g = Inr (img, g')
     \<or> create_architecture_image (height, width) g = Inr (img, g')
     \<or> create_nature_image (height, width) g = Inr (img, g')
     \<or> create_abstract_image (height, width) g = Inr (img, g'))
    \<longrightarrow> has_shape height width img \<and> \<not> wrapped img
        \<and> (\<forall>y x k. 0 \<le> uint (pix img y x k) \<and> uint (pix img y x k) \<le> 255))
   \<and> (add_noise low high height width img0 g = Inr (img1, g1) \<longrightarrow> wrapped img1 = wrapped img0)
   \<and> (has_shape height width img0 \<longrightarrow>
        (\<exists>img2. for_loop (py_range 0 height) (overlay_row height) img0 = Inr img2
           \<and> wrapped img2 = wrapped img0))"
proof (intro conjI impI)
  assume r: "create_landscape_image (height, width) g = Inr (img, g')
     \<or> create_portrait_image (height, width) g = Inr (img, g')
     \<or> create_architecture_image (height, width) g = Inr (img, g')
     \<or> create_nature_image (height, width) g = Inr (img, g')
     \<or> create_abstract_image (height, width) g = Inr (img, g')"
  have n: "create_nature_image (height, width) g \<noteq> Inr (img, g')"
    using create_nature_image_raises [of height width g] by auto
  have a: "create_abstract_image (height, width) g \<noteq> Inr (img, g')"
    using create_abstract_image_raises(1) [of height width g] by auto
  from r n a have "has_shape height width img \<and> \<not> wrapped img"
    using landscape_returned_clean portrait_returned_clean architecture_returned_clean by blast
  then show "has_shape height width img" "\<not> wrapped img" by simp_all
  show "\<forall>y x k. 0 \<le> uint (pix img y x k) \<and> uint (pix img y x k) \<le> 255"
    using uint8_range by blast
next
  assume "add_noise low high height width img0 g = Inr (img1, g1)"
  then show "wrapped img1 = wrapped img0" by (rule add_noise_wrapped)
next
  assume "has_shape height width img0"
  then show "\<exists>img2. for_loop (py_range 0 height) (overlay_row height) img0 = Inr img2
           \<and> wrapped img2 = wrapped img0"
    using overlay_ok by blast
qed

theorem returned_canvas_never_wrapped_witness:
  "\<exists>img g'. create_portrait_image (2, 2) (\<lambda>i. i) = Inr (img, g')
      \<and> has_shape 2 2 img \<and> \<not> wrapped img \<and> uint (pix img 0 0 0) \<le> 255"
proof -
  obtain img g' where r: "create_portrait_image (2, 2) (\<lambda>i. i) = Inr (img, g')"
    using create_portrait_image_ok [of 2 2 "\<lambda>i. i"] by auto
  from returned_canvas_never_wrapped [of 2 2 "\<lambda>i. i" img g', THEN conjunct1] r
  have "has_shape 2 2 img \<and> \<not> wrapped img
        \<and> (\<forall>y x k. 0 \<le> uint (pix img y x k) \<and> uint (pix img y x k) \<le> 255)" by blast
  with r show ?thesis by blast
qed

text \<open>
  C3, as stated, fails: at size \<open>(800, 7)\<close> the stripe width is \<open>7 // 8 = 0\<close>, and the
  Architecture generator calls \<open>range(0, 7, 0)\<close>, a zero loop step, which raises
  \<open>ValueError\<close>.
\<close>

theorem architecture_zero_step_raises:
  "create_architecture_image (800, 7) (\<lambda>i. 0) = Inl (ValueError range_step_zero)"
  by (rule create_architecture_image_zero_step) simp_all

text \<open>
  C3, amended.  For every size and every state of the random generator, none of the five
  generators divides by zero (\<open>ZeroDivisionError\<close>) or indexes past the image
  (\<open>IndexError\<close>).  Degenerate sizes are not tolerated by clamping the loop bounds:
  whenever \<open>width < 8\<close> or \<open>height < 12\<close> (with non-negative extents) the Architecture
  generator uses a zero loop step and raises \<open>ValueError\<close>.
\<close>

theorem composers_raise_only_value_errors:
  "create_landscape_image (height, width) g \<noteq> Inl ZeroDivisionError
   \<and> create_landscape_image (height, width) g \<noteq> Inl IndexError
   \<and> create_portrait_image (height, width) g \<noteq> Inl ZeroDivisionError
   \<and> create_portrait_image (height, width) g \<noteq> Inl IndexError
   \<and> create_architecture_image (height, width) g \<noteq> Inl ZeroDivisionError
   \<and> create_architecture_image (height, width) g \<noteq> Inl IndexError
   \<and> create_nature_image (height, width) g \<noteq> Inl ZeroDivisionError
   \<and> create_nature_image (height, width) g \<noteq> Inl IndexError
   \<and> create_abstract_image (height, width) g \<noteq> Inl ZeroDivisionError
   \<and> create_abstract_image (height, width) g \<noteq> Inl IndexError
   \<and> (0 \<le> height \<and> 0 \<le> width \<and> (width < 8 \<or> height < 12) \<longrightarrow>
        create_architecture_image (height, width) g = Inl (ValueError range_step_zero))"
proof -
  have l: "post is_value_error (\<lambda>_. True) (create_landscape_image (height, width) g)"
  proof (cases "height < 0 \<or> width < 0")
    case True then show ?thesis by (simp add: create_landscape_image_neg)
  next
    case False
    then have nn: "0 \<le> height" "0 \<le> width" by simp_all
    show ?thesis
    proof (cases "1 \<le> height \<and> width \<noteq> 3")
      case True then show ?thesis using nn by (simp add: create_landscape_image_fails)
    next
      case False
      then have "width = 3 \<or> height = 0" using nn by auto
      then show ?thesis
      proof
        assume "width = 3"
        then show ?thesis using create_landscape_image_width3 [OF nn(1), of g] by auto
      next
        assume "height = 0"
        then show ?thesis using create_landscape_image_height0 [OF nn(2), of g] by auto
      qed
    qed
  qed
  have p: "post is_value_error (\<lambda>_. True) (create_portrait_image (height, width) g)"
  proof (cases "height < 0 \<or> width < 0")
    case True then show ?thesis by (simp add: create_portrait_image_neg)
  next
    case False
    then show ?thesis using create_portrait_image_ok [of height width g] by auto
  qed
  have a: "post is_value_error (\<lambda>_. True) (create_architecture_image (height, width) g)"
  proof (cases "height < 0 \<or> width < 0")
    case True then show ?thesis by (simp add: create_architecture_image_neg)
  next
    case False
    then have nn: "0 \<le> height" "0 \<le> width" by simp_all
    show ?thesis
    proof (cases "width < 8 \<or> height < 12")
      case True then show ?thesis using nn by (simp add: create_architecture_image_zero_step)
    next
      case False
      then show ?thesis using create_architecture_image_ok [of height width g] by auto
    qed
  qed
  have n: "post is_value_error (\<lambda>_. True) (create_nature_image (height, width) g)"
    using create_nature_image_raises [of height width g] by auto
  have b: "post is_value_error (\<lambda>_. True) (create_abstract_image (height, width) g)"
    using create_abstract_image_raises(1) [of height width g] by auto
  have e: "\<And>r :: error + canvas \<times> rng. post is_value_error (\<lambda>_. True) r \<Longrightarrow>
        r \<noteq> Inl ZeroDivisionError \<and> r \<noteq> Inl IndexError"
    by auto
  show ?thesis using e [OF l] e [OF p] e [OF a] e [OF n] e [OF b]
    create_architecture_image_zero_step [of height width g] by blast
qed

theorem composers_raise_only_value_errors_witness:
  "create_architecture_image (11, 100) (\<lambda>i. i) = Inl (ValueError range_step_zero)
   \<and> create_architecture_image (11, 100) (\<lambda>i. i) \<noteq> Inl IndexError
   \<and> create_portrait_image (11, 100) (\<lambda>i. i) \<noteq> Inl ZeroDivisionError"
proof -
  note t = composers_raise_only_value_errors [of 11 100 "\<lambda>i. i"]
  have "(0::int) \<le> 11 \<and> (0::int) \<le> 100 \<and> ((100::int) < 8 \<or> (11::int) < 12)" by simp
  with t show ?thesis by blast
qed

text \<open>
  C10, as stated, fails: it is not for every input size that the Landscape generator
  raises.  At width 3 the three arrays of a mountain or ground row have shape \<open>(3, 3)\<close>,
  which is the shape of the row, so the assignment succeeds and an image is returned.
\<close>

theorem landscape_returns_at_width_3:
  "\<exists>img g'. create_landscape_image (12, 3) (\<lambda>i. i) = Inr (img, g') \<and> has_shape 12 3 img"
  using create_landscape_image_width3 [of 12 "\<lambda>i. i"] by auto

text \<open>
  C10, amended.  The Landscape generator raises \<open>ValueError\<close> (could not broadcast) for
  every size with \<open>height \<ge> 1\<close>, \<open>width \<ge> 0\<close> and \<open>width \<noteq> 3\<close>, for \<open>height \<ge> 4\<close> at the
  first mountain row after the sky band has been filled; it returns an image when
  \<open>height = 0\<close> or \<open>width = 3\<close>.  The Nature and the Abstract generator raise \<open>ValueError\<close>
  for every input size: at \<open>np.random.choice\<close> of the two-dimensional colour list in the
  first iteration whenever the draws before it succeed (Nature: both extents above 20;
  Abstract: non-negative extents).  The Portrait generator returns an image for all
  non-negative extents and the Architecture generator for \<open>height \<ge> 12\<close>, \<open>width \<ge> 8\<close>; so
  at the default sizes only these two return.
\<close>

theorem which_generators_return:
  "(1 \<le> height \<and> 0 \<le> width \<and> width \<noteq> 3 \<longrightarrow>
      create_landscape_image (height, width) g = Inl (ValueError could_not_broadcast))
   \<and> (4 \<le> height \<and> 0 \<le> width \<and> width \<noteq> 3 \<longrightarrow>
      (\<exists>img0 img1. np_full height width 0 = Inr img0 \<and> landscape_sky height img0 = Inr img1
         \<and> landscape_mountains height width (img1, g) = Inl (ValueError could_not_broadcast)))
   \<and> ((height = 0 \<and> 0 \<le> width) \<or> (0 \<le> height \<and> width = 3) \<longrightarrow>
      (\<exists>img g'. create_landscape_image (height, width) g = Inr (img, g')
         \<and> has_shape height width img))
   \<and> (\<exists>v. create_nature_image (height, width) g = Inl (ValueError v))
   \<and> (20 < height \<and> 20 < width \<longrightarrow>
      create_nature_image (height, width) g = Inl (ValueError not_1_dimensional))
   \<and> (\<exists>v. create_abstract_image (height, width) g = Inl (ValueError v))
   \<and> (0 \<le> height \<and> 0 \<le> width \<longrightarrow>
      create_abstract_image (height, width) g = Inl (ValueError not_1_dimensional))
   \<and> (0 \<le> height \<and> 0 \<le> width \<longrightarrow>
      (\<exists>img g'. create_portrait_image (height, width) g = Inr (img, g')
         \<and> has_shape height width img))
   \<and> (12 \<le> height \<and> 8 \<le> width \<longrightarrow>
      (\<exists>img g'. create_architecture_image (height, width) g = Inr (img, g')
         \<and> has_shape height width img))"
proof (intro conjI impI)
  assume "1 \<le> height \<and> 0 \<le> width \<and> width \<noteq> 3"
  then show "create_landscape_image (height, width) g = Inl (ValueError could_not_broadcast)"
    by (simp add: create_landscape_image_fails)
next
  assume a: "4 \<le> height \<and> 0 \<le> width \<and> width \<noteq> 3"
  then have h: "0 \<le> height" by simp
  obtain img0 where i0: "np_full height width 0 = Inr img0" "has_shape height width img0"
    using np_full_ok [OF h, of width 0] a by (auto simp: fits_uint8_def)
  obtain img1 where i1: "landscape_sky height img0 = Inr img1" "has_shape height width img1"
    using landscape_sky_ok [OF i0(2) h] by blast
  have "landscape_mountains height width (img1, g) = Inl (ValueError could_not_broadcast)"
    using a by (intro landscape_mountains_fails [OF i1(2)]) simp_all
  with i0 i1 show "\<exists>img0 img1. np_full height width 0 = Inr img0 \<and> landscape_sky height img0 = Inr img1
         \<and> landscape_mountains height width (img1, g) = Inl (ValueError could_not_broadcast)"
    by blast
next
  assume "(height = 0 \<and> 0 \<le> width) \<or> (0 \<le> height \<and> width = 3)"
  then show "\<exists>img g'. create_landscape_image (height, width) g = Inr (img, g')
         \<and> has_shape height width img"
  proof
    assume "height = 0 \<and> 0 \<le> width"
    then show ?thesis using create_landscape_image_height0 [of width g] by auto
  next
    assume "0 \<le> height \<and> width = 3"
    then show ?thesis using create_landscape_image_width3 [of height g] by auto
  qed
next
  show "\<exists>v. create_nature_image (height, width) g = Inl (ValueError v)"
    by (rule create_nature_image_raises)
next
  assume "20 < height \<and> 20 < width"
  then show "create_nature_image (height, width) g = Inl (ValueError not_1_dimensional)"
    by (simp add: create_nature_image_raises_choice)
next
  show "\<exists>v. create_abstract_image (height, width) g = Inl (ValueError v)"
    by (rule create_abstract_image_raises(1))
next
  assume "0 \<le> height \<and> 0 \<le> width"
  then show "create_abstract_image (height, width) g = Inl (ValueError not_1_dimensional)"
    by (simp add: create_abstract_image_raises(2))
next
  assume "0 \<le> height \<and> 0 \<le> width"
  then show "\<exists>img g'. create_portrait_image (height, width) g = Inr (img, g')
         \<and> has_shape height width img"
    using create_portrait_image_ok [of height width g] by auto
next
  assume "12 \<le> height \<and> 8 \<le> width"
  then show "\<exists>img g'. create_architecture_image (height, width) g = Inr (img, g')
         \<and> has_shape height width img"
    using create_architecture_image_ok [of height width g] by auto
qed

theorem which_generators_return_witness:
  "create_landscape_image (720, 1280) (\<lambda>i. i) = Inl (ValueError could_not_broadcast)
   \<and> create_nature_image (1080, 1920) (\<lambda>i. i) = Inl (ValueError not_1_dimensional)
   \<and> create_abstract_image (600, 800) (\<lambda>i. i) = Inl (ValueError not_1_dimensional)
   \<and> (\<exists>img g'. create_portrait_image (960, 720) (\<lambda>i. i) = Inr (img, g') \<and> has_shape 960 720 img)
   \<and> (\<exists>img g'. create_architecture_image (800, 1200) (\<lambda>i. i) = Inr (img, g')
         \<and> has_shape 800 1200 img)
   \<and> (\<exists>img g'. create_landscape_image (0, 1280) (\<lambda>i. i) = Inr (img, g') \<and> has_shape 0 1280 img)"
proof -
  note a = which_generators_return [of 720 1280 "\<lambda>i. i"]
  note b = which_generators_return [of 1080 1920 "\<lambda>i. i"]
  note c = which_generators_return [of 600 800 "\<lambda>i. i"]
  note d = which_generators_return [of 960 720 "\<lambda>i. i"]
  note e = which_generators_return [of 800 1200 "\<lambda>i. i"]
  note f = which_generators_return [of 0 1280 "\<lambda>i. i"]
  have 1: "create_landscape_image (720, 1280) (\<lambda>i. i) = Inl (ValueError could_not_broadcast)"
    using a by simp
  have 2: "create_nature_image (1080, 1920) (\<lambda>i. i) = Inl (ValueError not_1_dimensional)"
    using b by simp
  have 3: "create_abstract_image (600, 800) (\<lambda>i. i) = Inl (ValueError not_1_dimensional)"
    using c by simp
  have 4: "\<exists>img g'. create_portrait_image (960, 720) (\<lambda>i. i) = Inr (img, g') \<and> has_shape 960 720 img"
    using d by simp
  have 5: "\<exists>img g'. create_architecture_image (800, 1200) (\<lambda>i. i) = Inr (img, g')
         \<and> has_shape 800 1200 img"
    using e by simp
  have 6: "\<exists>img g'. create_landscape_image (0, 1280) (\<lambda>i. i) = Inr (img, g') \<and> has_shape 0 1280 img"
    using f by simp
  from 1 2 3 4 5 6 show ?thesis by blast
qed

end
